theory Spec2Isabelle
  imports Main
begin

section \<open>HANDLER commands of sql/sql_handler.cc: data model\<close>

text \<open>
  The read modes of \<^verbatim>\<open>enum enum_ha_read_modes\<close>, as the switch of
  \<^verbatim>\<open>mysql_ha_read\<close> names them.
\<close>

datatype enum_ha_read_modes = RFIRST | RNEXT | RPREV | RLAST | RKEY | RNEXT_SAME

text \<open>
  Modelled from the spec: \<^verbatim>\<open>enum ha_rkey_function\<close> is declared in a header that
  is not part of the sources at hand. The spec lists the eight comparators the table
  \<^verbatim>\<open>rkey_to_rnext\<close> is indexed by, in this order: Exact, GreaterOrEqual, LessOrEqual,
  StrictlyGreater, StrictlyLess, PrefixFirst, PrefixLast, PrefixLastOrLess.
\<close>

datatype ha_rkey_function =
    HA_READ_KEY_EXACT
  | HA_READ_KEY_OR_NEXT
  | HA_READ_KEY_OR_PREV
  | HA_READ_AFTER_KEY
  | HA_READ_BEFORE_KEY
  | HA_READ_PREFIX
  | HA_READ_PREFIX_LAST
  | HA_READ_PREFIX_LAST_OR_PREV

text \<open>The cast \<^verbatim>\<open>(int) ha_rkey_mode\<close>: the ordinal of the comparator.\<close>

fun rkey_ord :: "ha_rkey_function \<Rightarrow> nat" where
  "rkey_ord HA_READ_KEY_EXACT = 0"
| "rkey_ord HA_READ_KEY_OR_NEXT = 1"
| "rkey_ord HA_READ_KEY_OR_PREV = 2"
| "rkey_ord HA_READ_AFTER_KEY = 3"
| "rkey_ord HA_READ_BEFORE_KEY = 4"
| "rkey_ord HA_READ_PREFIX = 5"
| "rkey_ord HA_READ_PREFIX_LAST = 6"
| "rkey_ord HA_READ_PREFIX_LAST_OR_PREV = 7"

text \<open>
  \<^verbatim>\<open>static enum enum_ha_read_modes rkey_to_rnext[]=
  { RNEXT_SAME, RNEXT, RPREV, RNEXT, RPREV, RNEXT, RPREV, RPREV };\<close>
\<close>

definition rkey_to_rnext :: "enum_ha_read_modes list" where
  "rkey_to_rnext = [RNEXT_SAME, RNEXT, RPREV, RNEXT, RPREV, RNEXT, RPREV, RPREV]"

text \<open>
  The errors the commands report with \<^verbatim>\<open>my_error\<close>. \<open>ER_REPORTED\<close> stands for a
  failure whose message a callee has already printed (a failed allocation, a failed
  \<^verbatim>\<open>open_tables\<close>, \<^verbatim>\<open>fix_fields\<close>, \<^verbatim>\<open>insert_fields\<close>, a failed lock or a failed
  send); \<open>ER_ENGINE c\<close> is \<^verbatim>\<open>table->file->print_error(c)\<close>; \<open>EX_ASSERT\<close> is a
  failed \<^verbatim>\<open>DBUG_ASSERT\<close>.
\<close>

datatype error =
    ER_LOCK_OR_ACTIVE_TRANSACTION
  | ER_WRONG_USAGE
  | ER_NONUNIQ_TABLE
  | ER_ILLEGAL_HA
  | ER_UNKNOWN_TABLE
  | ER_KEY_DOES_NOT_EXITS
  | ER_TOO_MANY_KEY_PARTS
  | ER_WRONG_ARGUMENTS
  | ER_ENGINE int
  | ER_REPORTED
  | EX_ASSERT

text \<open>
  The engine error codes the row loop tests for. Their numeric values come from a header
  that is not among the sources; the values of \<^verbatim>\<open>my_base.h\<close> are used.
\<close>

definition HA_ERR_KEY_NOT_FOUND :: int where "HA_ERR_KEY_NOT_FOUND = 120"
definition HA_ERR_RECORD_DELETED :: int where "HA_ERR_RECORD_DELETED = 134"
definition HA_ERR_END_OF_FILE :: int where "HA_ERR_END_OF_FILE = 137"

subsection \<open>The engine cursor\<close>

text \<open>
  The storage engine is an external collaborator. Its primitives are the calls that
  \<^verbatim>\<open>mysql_ha_read\<close> and \<^verbatim>\<open>mysql_ha_close_table\<close> make on \<^verbatim>\<open>table->file\<close>.
\<close>

datatype prim =
    P_INDEX_END
  | P_RND_END
  | P_INDEX_INIT int
  | P_RND_INIT
  | P_INDEX_FIRST
  | P_INDEX_LAST
  | P_INDEX_NEXT
  | P_INDEX_PREV
  | P_RND_NEXT
  | P_INDEX_NEXT_SAME "int list"
  | P_INDEX_READ_MAP "int list" nat ha_rkey_function

datatype ha_inited = NONE | INDEX | RND

text \<open>
  \<open>inited\<close> is \<^verbatim>\<open>handler::inited\<close>, \<open>engine\<close> the engine's own state (its position
  and \<^verbatim>\<open>table->record[0]\<close>), and \<open>calls\<close> a history of the primitives issued on
  this cursor, which the code does not keep: it is there to state which primitive a
  read issues.
\<close>

record 'e handler =
  inited :: ha_inited
  engine :: 'e
  calls :: "prim list"

text \<open>
  An engine is a function from a primitive and the engine state to a result code
  (\<open>0\<close> is success) and the next engine state.
\<close>

type_synonym 'e engine_fun = "prim \<Rightarrow> 'e \<Rightarrow> int \<times> 'e"

definition ha_call :: "'e engine_fun \<Rightarrow> prim \<Rightarrow> 'e handler \<Rightarrow> int \<times> 'e handler" where
  "ha_call eng p h =
     (let (r, e') = eng p (engine h)
      in (r, h\<lparr>engine := e', calls := calls h @ [p]\<rparr>))"

text \<open>
  Modelled from the spec: the wrappers \<^verbatim>\<open>ha_index_or_rnd_end\<close>, \<^verbatim>\<open>ha_index_init\<close>
  and \<^verbatim>\<open>ha_rnd_init\<close> of the handler base class are declared outside the sources at
  hand. The spec has them end any active scan and initialise an index or a full scan;
  \<open>inited\<close> records which scan is active, and an initialisation the engine refuses
  leaves no scan active.
\<close>

definition ha_index_or_rnd_end :: "'e engine_fun \<Rightarrow> 'e handler \<Rightarrow> 'e handler" where
  "ha_index_or_rnd_end eng h =
     (case inited h of
        INDEX \<Rightarrow> (snd (ha_call eng P_INDEX_END h))\<lparr>inited := NONE\<rparr>
      | RND \<Rightarrow> (snd (ha_call eng P_RND_END h))\<lparr>inited := NONE\<rparr>
      | NONE \<Rightarrow> h)"

definition ha_index_init :: "'e engine_fun \<Rightarrow> int \<Rightarrow> 'e handler \<Rightarrow> int \<times> 'e handler" where
  "ha_index_init eng keyno h =
     (let (r, h') = ha_call eng (P_INDEX_INIT keyno) h
      in (r, if r = 0 then h'\<lparr>inited := INDEX\<rparr> else h'))"

definition ha_rnd_init :: "'e engine_fun \<Rightarrow> 'e handler \<Rightarrow> int \<times> 'e handler" where
  "ha_rnd_init eng h =
     (let (r, h') = ha_call eng P_RND_INIT h
      in (r, h'\<lparr>inited := (if r \<noteq> 0 then NONE else RND)\<rparr>))"

subsection \<open>One pass through the switch of the row loop\<close>

text \<open>
  An expression of the key list of \<^verbatim>\<open>HANDLER ... READ idx (e1, e2, ...)\<close>:
  whether \<^verbatim>\<open>fix_fields\<close> or \<^verbatim>\<open>check_cols\<close> fails on it, whether it refers to a
  table (\<^verbatim>\<open>used_tables() & ~RAND_TABLE_BIT\<close>), the value \<^verbatim>\<open>save_in_field\<close> stores,
  and the \<^verbatim>\<open>store_length\<close> of its key part.
\<close>

record key_item =
  fix_fails :: bool
  uses_tables :: bool
  item_value :: int
  store_length :: nat

text \<open>
  What one \<^verbatim>\<open>mysql_ha_read\<close> is asked, after the name of the index has been
  resolved: \<open>keyname\<close> is whether an index was named, \<open>keyno\<close> its number,
  \<open>key_parts\<close> is \<^verbatim>\<open>keyinfo->key_parts\<close> of that index, \<open>cond\<close> the optional
  \<^verbatim>\<open>WHERE\<close> condition on \<^verbatim>\<open>record[0]\<close>, \<open>alloc_ok\<close> whether \<^verbatim>\<open>thd->calloc\<close> of
  the key buffer succeeds, \<open>send_ok\<close> whether \<^verbatim>\<open>send_result_set_row\<close> succeeds
  given the rows sent so far.
\<close>

record 'r scan_req =
  keyname :: bool
  keyno :: int
  key_parts :: nat
  key_expr :: "key_item list"
  ha_rkey_mode :: ha_rkey_function
  cond :: "('r \<Rightarrow> bool) option"
  select_limit_cnt :: nat
  offset_limit_cnt :: nat
  alloc_ok :: bool
  send_ok :: "'r list \<Rightarrow> 'r \<Rightarrow> bool"

text \<open>
  The loop over the key expressions of the \<^verbatim>\<open>RKEY\<close> case: it fails at the first
  expression that cannot be fixed or that refers to a table, and otherwise yields the
  key values, \<^verbatim>\<open>key_len\<close> and \<^verbatim>\<open>keypart_map\<close>.
\<close>

fun build_key :: "key_item list \<Rightarrow> int list \<Rightarrow> nat \<Rightarrow> nat \<Rightarrow> error + (int list \<times> nat \<times> nat)" where
  "build_key [] vals key_len keypart_map = Inr (vals, key_len, keypart_map)"
| "build_key (item # rest) vals key_len keypart_map =
     (if fix_fails item then Inl ER_REPORTED
      else if uses_tables item then Inl ER_WRONG_ARGUMENTS
      else build_key rest (vals @ [item_value item]) (key_len + store_length item)
             (2 * keypart_map + 1))"

text \<open>
  The state of the row loop: the local \<^verbatim>\<open>mode\<close>, the key buffer (\<^verbatim>\<open>key\<close> is
  uninitialised until an \<^verbatim>\<open>RKEY\<close> pass fills it; the empty list stands for that),
  the cursor, the 32-bit counter \<^verbatim>\<open>num_rows\<close>, and the rows written to the client.
\<close>

record ('e, 'r) scan =
  mode :: enum_ha_read_modes
  key :: "int list"
  tfile :: "'e handler"
  num_rows :: nat
  sent :: "'r list"

text \<open>
  The switch. The result is the engine's \<^verbatim>\<open>error\<close> and the state after the pass,
  or the error of a \<^verbatim>\<open>goto err\<close> inside the switch. \<^verbatim>\<open>RNEXT\<close> and \<^verbatim>\<open>RPREV\<close> fall
  through to \<^verbatim>\<open>RFIRST\<close> and \<^verbatim>\<open>RLAST\<close> when no scan is active.
\<close>

definition do_rfirst :: "'e engine_fun \<Rightarrow> 'r scan_req \<Rightarrow> ('e, 'r) scan \<Rightarrow> int \<times> ('e, 'r) scan" where
  "do_rfirst eng rq s =
     (if keyname rq then
        (let h1 = ha_index_or_rnd_end eng (tfile s);
             (_, h2) = ha_index_init eng (keyno rq) h1;
             (err, h3) = ha_call eng P_INDEX_FIRST h2
         in (err, s\<lparr>tfile := h3, mode := RNEXT\<rparr>))
      else
        (let h1 = ha_index_or_rnd_end eng (tfile s);
             (err, h2) = ha_rnd_init eng h1;
             (err', h3) = (if err = 0 then ha_call eng P_RND_NEXT h2 else (err, h2))
         in (err', s\<lparr>tfile := h3, mode := RNEXT\<rparr>)))"

definition do_rlast :: "'e engine_fun \<Rightarrow> 'r scan_req \<Rightarrow> ('e, 'r) scan \<Rightarrow> error + (int \<times> ('e, 'r) scan)" where
  "do_rlast eng rq s =
     (if \<not> keyname rq then Inl EX_ASSERT
      else
        (let h1 = ha_index_or_rnd_end eng (tfile s);
             (_, h2) = ha_index_init eng (keyno rq) h1;
             (err, h3) = ha_call eng P_INDEX_LAST h2
         in Inr (err, s\<lparr>tfile := h3, mode := RPREV\<rparr>)))"

definition do_rkey :: "'e engine_fun \<Rightarrow> 'r scan_req \<Rightarrow> ('e, 'r) scan \<Rightarrow> error + (int \<times> ('e, 'r) scan)" where
  "do_rkey eng rq s =
     (if \<not> keyname rq then Inl EX_ASSERT
      else if length (key_expr rq) > key_parts rq then Inl ER_TOO_MANY_KEY_PARTS
      else
        (case build_key (key_expr rq) [] 0 0 of
           Inl e \<Rightarrow> Inl e
         | Inr (vals, key_len, keypart_map) \<Rightarrow>
             if \<not> alloc_ok rq then Inl ER_REPORTED
             else
               (let h1 = ha_index_or_rnd_end eng (tfile s);
                    (_, h2) = ha_index_init eng (keyno rq) h1;
                    (err, h3) = ha_call eng (P_INDEX_READ_MAP vals keypart_map (ha_rkey_mode rq)) h2
                in Inr (err, s\<lparr>tfile := h3, key := vals,
                                mode := rkey_to_rnext ! rkey_ord (ha_rkey_mode rq)\<rparr>))))"

fun read_switch :: "'e engine_fun \<Rightarrow> 'r scan_req \<Rightarrow> ('e, 'r) scan \<Rightarrow> error + (int \<times> ('e, 'r) scan)" where
  "read_switch eng rq s =
     (case mode s of
        RNEXT \<Rightarrow>
          (if inited (tfile s) \<noteq> NONE then
             (let (err, h) = ha_call eng (if keyname rq then P_INDEX_NEXT else P_RND_NEXT) (tfile s)
              in Inr (err, s\<lparr>tfile := h\<rparr>))
           else Inr (do_rfirst eng rq s))
      | RFIRST \<Rightarrow> Inr (do_rfirst eng rq s)
      | RPREV \<Rightarrow>
          (if \<not> keyname rq then Inl EX_ASSERT
           else if inited (tfile s) \<noteq> NONE then
             (let (err, h) = ha_call eng P_INDEX_PREV (tfile s)
              in Inr (err, s\<lparr>tfile := h\<rparr>))
           else do_rlast eng rq s)
      | RLAST \<Rightarrow> do_rlast eng rq s
      | RNEXT_SAME \<Rightarrow>
          (if \<not> keyname rq then Inl EX_ASSERT
           else
             (let (err, h) = ha_call eng (P_INDEX_NEXT_SAME (key s)) (tfile s)
              in Inr (err, s\<lparr>tfile := h\<rparr>)))
      | RKEY \<Rightarrow> do_rkey eng rq s)"

subsection \<open>The row loop\<close>

text \<open>
  \<^verbatim>\<open>for (num_rows=0; num_rows < select_limit_cnt; ) { switch ...; if (error) ...; }\<close>
  The loop runs again without counting when the engine reports a deleted record or the
  condition rejects the row, so it need not end: the first argument bounds the number of
  passes, and \<open>None\<close> says the bound was reached. A result \<open>Some (None, s)\<close> is the
  label \<^verbatim>\<open>ok\<close>, \<open>Some (Some e, s)\<close> the label \<^verbatim>\<open>err\<close>. \<open>record0\<close> reads
  \<^verbatim>\<open>table->record[0]\<close> off the engine. \<^verbatim>\<open>num_rows\<close> is a \<^verbatim>\<open>uint\<close>: it wraps at
  \<open>2 ^ 32\<close>.
\<close>

definition cond_rejects :: "'r scan_req \<Rightarrow> 'r \<Rightarrow> bool" where
  "cond_rejects rq row = (case cond rq of None \<Rightarrow> False | Some c \<Rightarrow> \<not> c row)"

fun row_loop ::
  "nat \<Rightarrow> 'e engine_fun \<Rightarrow> ('e \<Rightarrow> 'r) \<Rightarrow> 'r scan_req \<Rightarrow> ('e, 'r) scan
    \<Rightarrow> (error option \<times> ('e, 'r) scan) option" where
  "row_loop 0 eng record0 rq s = None"
| "row_loop (Suc n) eng record0 rq s =
     (if \<not> num_rows s < select_limit_cnt rq then Some (None, s)
      else
        (case read_switch eng rq s of
           Inl e \<Rightarrow> Some (Some e, s)
         | Inr (err, s') \<Rightarrow>
             if err \<noteq> 0 then
               (if err = HA_ERR_RECORD_DELETED then row_loop n eng record0 rq s'
                else if err \<noteq> HA_ERR_KEY_NOT_FOUND \<and> err \<noteq> HA_ERR_END_OF_FILE
                  then Some (Some (ER_ENGINE err), s')
                else Some (None, s'))
             else if cond_rejects rq (record0 (engine (tfile s'))) then row_loop n eng record0 rq s'
             else if num_rows s' \<ge> offset_limit_cnt rq then
               (if \<not> send_ok rq (sent s') (record0 (engine (tfile s'))) then Some (Some ER_REPORTED, s')
                else row_loop n eng record0 rq
                       (s'\<lparr>sent := sent s' @ [record0 (engine (tfile s'))],
                           num_rows := (num_rows s' + 1) mod 2 ^ 32\<rparr>))
             else row_loop n eng record0 rq (s'\<lparr>num_rows := (num_rows s' + 1) mod 2 ^ 32\<rparr>)))"

subsection \<open>The continuation table as the specification words it\<close>

text \<open>
  The specification's table, written from its words (Forward is \<^verbatim>\<open>RNEXT\<close>, Backward is
  \<^verbatim>\<open>RPREV\<close>, SamePrefix is \<^verbatim>\<open>RNEXT_SAME\<close>), to be compared with \<open>rkey_to_rnext\<close>.
\<close>

fun spec_continuation :: "ha_rkey_function \<Rightarrow> enum_ha_read_modes" where
  "spec_continuation HA_READ_KEY_EXACT = RNEXT_SAME"
| "spec_continuation HA_READ_KEY_OR_NEXT = RNEXT"
| "spec_continuation HA_READ_KEY_OR_PREV = RPREV"
| "spec_continuation HA_READ_AFTER_KEY = RNEXT"
| "spec_continuation HA_READ_BEFORE_KEY = RPREV"
| "spec_continuation HA_READ_PREFIX = RNEXT"
| "spec_continuation HA_READ_PREFIX_LAST = RPREV"
| "spec_continuation HA_READ_PREFIX_LAST_OR_PREV = RPREV"

text \<open>The primitive a continuation mode issues on an active scan.\<close>

fun continuation_prim :: "enum_ha_read_modes \<Rightarrow> int list \<Rightarrow> prim" where
  "continuation_prim RNEXT_SAME k = P_INDEX_NEXT_SAME k"
| "continuation_prim RPREV k = P_INDEX_PREV"
| "continuation_prim m k = P_INDEX_NEXT"

text \<open>
  The next-mode column of the specification's state machine (First and Next lead to
  Forward, Last and Prev to Backward, SamePrefix to SamePrefix, a key seek to the entry
  of the comparator), and the primitive the specification gives a pass in a continuation
  mode on an active scan, with or without an index.
\<close>

fun spec_next_mode :: "ha_rkey_function \<Rightarrow> enum_ha_read_modes \<Rightarrow> enum_ha_read_modes" where
  "spec_next_mode c RFIRST = RNEXT"
| "spec_next_mode c RNEXT = RNEXT"
| "spec_next_mode c RPREV = RPREV"
| "spec_next_mode c RLAST = RPREV"
| "spec_next_mode c RNEXT_SAME = RNEXT_SAME"
| "spec_next_mode c RKEY = spec_continuation c"

fun retry_prim :: "bool \<Rightarrow> enum_ha_read_modes \<Rightarrow> int list \<Rightarrow> prim" where
  "retry_prim kn RNEXT_SAME k = P_INDEX_NEXT_SAME k"
| "retry_prim kn RPREV k = P_INDEX_PREV"
| "retry_prim kn m k = (if kn then P_INDEX_NEXT else P_RND_NEXT)"

text \<open>
  Whether a pass in the mode of \<open>s\<close> goes on with a scan: SamePrefix always does, Next
  and Prev do when a scan is active.
\<close>

definition continues_scan :: "('e, 'r) scan \<Rightarrow> bool" where
  "continues_scan s =
     (mode s = RNEXT_SAME \<or> ((mode s = RNEXT \<or> mode s = RPREV) \<and> inited (tfile s) \<noteq> NONE))"

text \<open>An engine that accepts every call and has no state, for concrete runs.\<close>

definition ok_engine :: "unit engine_fun" where
  "ok_engine p e = (0, e)"

definition demo_req :: "unit scan_req" where
  "demo_req =
     \<lparr>keyname = True, keyno = 0, key_parts = 1,
      key_expr = [\<lparr>fix_fails = False, uses_tables = False, item_value = 7, store_length = 4\<rparr>],
      ha_rkey_mode = HA_READ_KEY_OR_NEXT, cond = None, select_limit_cnt = 1,
      offset_limit_cnt = 0, alloc_ok = True, send_ok = (\<lambda>rows row. True)\<rparr>"

definition demo_scan :: "enum_ha_read_modes \<Rightarrow> (unit, unit) scan" where
  "demo_scan m =
     \<lparr>mode = m, key = [], tfile = \<lparr>inited = NONE, engine = (), calls = []\<rparr>,
      num_rows = 0, sent = []\<rparr>"

text \<open>The states of the concrete runs below.\<close>

definition demo_s1 :: "(unit, unit) scan" where
  "demo_s1 =
     \<lparr>mode = RNEXT, key = [7],
      tfile = \<lparr>inited = INDEX, engine = (),
               calls = [P_INDEX_INIT 0, P_INDEX_READ_MAP [7] 1 HA_READ_KEY_OR_NEXT]\<rparr>,
      num_rows = 0, sent = []\<rparr>"

definition demo_s2 :: "(unit, unit) scan" where
  "demo_s2 =
     \<lparr>mode = RNEXT, key = [7],
      tfile = \<lparr>inited = INDEX, engine = (),
               calls = [P_INDEX_INIT 0, P_INDEX_READ_MAP [7] 1 HA_READ_KEY_OR_NEXT,
                        P_INDEX_NEXT]\<rparr>,
      num_rows = 0, sent = []\<rparr>"

subsection \<open>What the source yields to the loop\<close>

text \<open>
  The answers of the engine to the first \<open>n\<close> passes of the switch, each with the row
  then in \<^verbatim>\<open>record[0]\<close>: the switch is iterated from the state \<open>s\<close> as the loop
  iterates it (the loop changes only \<^verbatim>\<open>num_rows\<close> and the rows sent between two
  passes, which the switch does not read).
\<close>

fun scan_fetches ::
  "nat \<Rightarrow> 'e engine_fun \<Rightarrow> ('e \<Rightarrow> 'r) \<Rightarrow> 'r scan_req \<Rightarrow> ('e, 'r) scan \<Rightarrow> (int \<times> 'r) list" where
  "scan_fetches 0 eng record0 rq s = []"
| "scan_fetches (Suc n) eng record0 rq s =
     (case read_switch eng rq s of
        Inl e \<Rightarrow> []
      | Inr (err, s') \<Rightarrow> (err, record0 (engine (tfile s'))) # scan_fetches n eng record0 rq s')"

text \<open>
  The rows of a sequence of answers that the loop counts: fetched without error and not
  rejected by the condition.
\<close>

definition matching_rows :: "'r scan_req \<Rightarrow> (int \<times> 'r) list \<Rightarrow> 'r list" where
  "matching_rows rq outs =
     filter (\<lambda>row. \<not> cond_rejects rq row) (map snd (filter (\<lambda>(err, row). err = 0) outs))"

text \<open>
  A scripted engine, for concrete runs: its state is the row in \<^verbatim>\<open>record[0]\<close> and the
  answers still to come; each positioning primitive takes the next answer, and answers
  \<^verbatim>\<open>HA_ERR_END_OF_FILE\<close> when none is left; the other primitives succeed.
\<close>

fun is_fetch :: "prim \<Rightarrow> bool" where
  "is_fetch P_INDEX_END = False"
| "is_fetch P_RND_END = False"
| "is_fetch (P_INDEX_INIT k) = False"
| "is_fetch P_RND_INIT = False"
| "is_fetch p = True"

definition script_engine :: "('r \<times> (int \<times> 'r) list) engine_fun" where
  "script_engine p e =
     (if is_fetch p then
        (case snd e of
           [] \<Rightarrow> (HA_ERR_END_OF_FILE, e)
         | (c, row) # rest \<Rightarrow> (c, (row, rest)))
      else (0, e))"

definition script_scan :: "enum_ha_read_modes \<Rightarrow> (int \<times> int) list \<Rightarrow> (int \<times> (int \<times> int) list, int) scan" where
  "script_scan m script =
     \<lparr>mode = m, key = [], tfile = \<lparr>inited = NONE, engine = (0, script), calls = []\<rparr>,
      num_rows = 0, sent = []\<rparr>"

definition script_req :: "nat \<Rightarrow> nat \<Rightarrow> int scan_req" where
  "script_req lim off =
     \<lparr>keyname = True, keyno = 0, key_parts = 1, key_expr = [],
      ha_rkey_mode = HA_READ_KEY_EXACT, cond = None, select_limit_cnt = lim,
      offset_limit_cnt = off, alloc_ok = True, send_ok = (\<lambda>rows row. True)\<rparr>"

definition cx4_final :: "(int \<times> (int \<times> int) list, int) scan" where
  "cx4_final =
     \<lparr>mode = RNEXT, key = [],
      tfile = \<lparr>inited = INDEX, engine = (10, [(0, 20)]),
               calls = [P_INDEX_INIT 0, P_INDEX_FIRST]\<rparr>,
      num_rows = 1, sent = []\<rparr>"

definition cx5_final :: "(int \<times> (int \<times> int) list, int) scan" where
  "cx5_final =
     \<lparr>mode = RNEXT, key = [],
      tfile = \<lparr>inited = INDEX, engine = (20, []),
               calls = [P_INDEX_INIT 0, P_INDEX_FIRST, P_INDEX_NEXT, P_INDEX_NEXT]\<rparr>,
      num_rows = 1, sent = [20]\<rparr>"

definition cx5_first :: "(int \<times> (int \<times> int) list, int) scan" where
  "cx5_first =
     \<lparr>mode = RNEXT, key = [],
      tfile = \<lparr>inited = INDEX, engine = (10, [(0, 20)]),
               calls = [P_INDEX_INIT 0, P_INDEX_FIRST]\<rparr>,
      num_rows = 0, sent = []\<rparr>"


section \<open>The session: handler tables and their hash\<close>

type_synonym table_id = nat
type_synonym ticket = nat

text \<open>
  A \<^verbatim>\<open>TABLE\<close> object, as far as the HANDLER commands read or write it: its cursor
  \<^verbatim>\<open>file\<close>, \<^verbatim>\<open>mdl_ticket\<close> (none for a temporary table), \<^verbatim>\<open>open_by_handler\<close>,
  \<^verbatim>\<open>query_id\<close>, whether \<^verbatim>\<open>ha_table_flags()\<close> has \<^verbatim>\<open>HA_CAN_SQL_HANDLER\<close>, what
  \<^verbatim>\<open>mdl_ticket->has_pending_conflicting_lock()\<close> and \<^verbatim>\<open>s->needs_reopen()\<close> answer,
  the names of its indexes and the number of key parts of each. \<open>in_use\<close> says whether
  a session holds the object: it is set when the table is opened and cleared when
  \<^verbatim>\<open>close_thread_table\<close> or \<^verbatim>\<open>close_thread_tables\<close> gives the object back to the table
  cache.
\<close>

record 'e TABLE =
  t_file :: "'e handler"
  in_use :: bool
  mdl_ticket :: "ticket option"
  open_by_handler :: bool
  query_id :: nat
  can_sql_handler :: bool
  has_pending_conflicting_lock :: bool
  needs_reopen :: bool
  keynames :: "string list"
  key_info :: "nat list"

text \<open>
  A \<^verbatim>\<open>TABLE_LIST\<close>: the names, the pointer \<^verbatim>\<open>table\<close> (\<open>None\<close> is \<^verbatim>\<open>NULL\<close>:
  closed, ready for re-open), \<^verbatim>\<open>schema_table\<close> and \<^verbatim>\<open>mdl_request.ticket\<close>.
\<close>

record TABLE_LIST =
  db :: string
  table_name :: string
  tl_alias :: string
  tl_table :: "table_id option"
  schema_table :: bool
  mdl_request_ticket :: "ticket option"

text \<open>
  What the HANDLER commands did with their collaborators, in order; the code keeps no
  such history. \<open>Ev_open_tables a ts ks\<close> is a call of \<^verbatim>\<open>open_tables\<close> for the alias
  \<open>a\<close> made while \<^verbatim>\<open>thd->open_tables\<close> was \<open>ts\<close> and \<^verbatim>\<open>thd->mdl_context\<close> held
  \<open>ks\<close>.
\<close>

datatype event =
    Ev_open_tables string "table_id list" "ticket list"
  | Ev_close_thread_table table_id
  | Ev_close_thread_tables
  | Ev_lock_tables table_id
  | Ev_unlock_tables

text \<open>
  The session \<^verbatim>\<open>THD\<close>. \<open>handler_tables_hash\<close> is \<open>None\<close> until \<^verbatim>\<open>my_hash_init\<close>
  has run, then the hashed \<^verbatim>\<open>TABLE_LIST\<close> objects in the order of
  \<^verbatim>\<open>my_hash_element\<close>; \<open>handler_tables\<close> and \<open>open_tables\<close> are the two linked
  lists of \<^verbatim>\<open>TABLE\<close>; \<open>mdl_context\<close> and \<open>handler_mdl_context\<close> hold lock tickets;
  \<open>heap\<close> is the memory of \<^verbatim>\<open>TABLE\<close> objects, by address, \<open>next_table\<close> the next
  unused address; \<open>world\<close> is the rest of the server, as the collaborators see it.
\<close>

record ('e, 'w) THD =
  locked_tables_mode :: bool
  handler_tables_hash :: "TABLE_LIST list option"
  handler_tables :: "table_id list"
  open_tables :: "table_id list"
  mdl_context :: "ticket list"
  handler_mdl_context :: "ticket list"
  heap :: "table_id \<Rightarrow> 'e TABLE"
  next_table :: table_id
  some_tables_deleted :: bool
  thd_query_id :: nat
  world :: 'w
  trace :: "event list"

text \<open>
  Modelled from the spec: the generic open-and-lock collaborator \<^verbatim>\<open>open_tables\<close> is not
  among the sources. The spec has it materialise an engine cursor for one name or fail,
  and report a multi-object open distinctly; the code tells a temporary table apart (it
  has no lock ticket and is not linked into \<^verbatim>\<open>thd->open_tables\<close>). \<open>Open_one err T\<close> is
  one base table opened, with the error flag \<^verbatim>\<open>open_tables\<close> returns;
  \<open>Open_multi T1 T2 Ts\<close> is two tables or more opened for the one name.
\<close>

datatype 'e open_outcome =
    Open_error
  | Open_one bool "'e TABLE"
  | Open_temporary "'e TABLE"
  | Open_multi "'e TABLE" "'e TABLE" "'e TABLE list"

text \<open>
  The collaborators, as functions of the world: the engine, \<^verbatim>\<open>record[0]\<close>,
  \<^verbatim>\<open>open_tables\<close> (which also sees \<^verbatim>\<open>thd->open_tables\<close> and \<^verbatim>\<open>thd->mdl_context\<close> as
  they are when it is called), \<^verbatim>\<open>mysql_lock_tables\<close> (the lock, if any, and \<^verbatim>\<open>need_reopen\<close>),
  the allocator (\<^verbatim>\<open>my_hash_init\<close>, \<^verbatim>\<open>my_multi_malloc\<close>, \<^verbatim>\<open>my_hash_insert\<close>: whether
  the allocation succeeds), and \<^verbatim>\<open>find_type\<close> on the index names.
\<close>

record ('e, 'r, 'w) collaborators =
  x_engine :: "'e engine_fun"
  x_record0 :: "'e \<Rightarrow> 'r"
  x_open_tables :: "'w \<Rightarrow> table_id list \<Rightarrow> ticket list \<Rightarrow> TABLE_LIST \<Rightarrow> 'e open_outcome \<times> 'w"
  x_lock_tables :: "'w \<Rightarrow> table_id \<Rightarrow> (nat option \<times> bool) \<times> 'w"
  x_alloc :: "'w \<Rightarrow> bool \<times> 'w"
  x_find_type :: "string \<Rightarrow> string list \<Rightarrow> int"

subsection \<open>The hash\<close>

definition hash_records :: "('e, 'w) THD \<Rightarrow> TABLE_LIST list" where
  "hash_records thd = (case handler_tables_hash thd of None \<Rightarrow> [] | Some es \<Rightarrow> es)"

definition my_hash_search :: "('e, 'w) THD \<Rightarrow> string \<Rightarrow> TABLE_LIST option" where
  "my_hash_search thd a = find (\<lambda>e. tl_alias e = a) (hash_records thd)"

fun hash_remove :: "string \<Rightarrow> TABLE_LIST list \<Rightarrow> TABLE_LIST list" where
  "hash_remove a [] = []"
| "hash_remove a (e # es) = (if tl_alias e = a then es else e # hash_remove a es)"

fun hash_store :: "TABLE_LIST \<Rightarrow> TABLE_LIST list \<Rightarrow> TABLE_LIST list" where
  "hash_store e' [] = []"
| "hash_store e' (e # es) = (if tl_alias e = tl_alias e' then e' # es else e # hash_store e' es)"

text \<open>
  \<^verbatim>\<open>my_hash_delete\<close> of a hashed object, and a write through a pointer to a hashed
  object; the object is found by its alias, the key of the hash.
\<close>

definition my_hash_delete :: "TABLE_LIST \<Rightarrow> ('e, 'w) THD \<Rightarrow> ('e, 'w) THD" where
  "my_hash_delete e thd =
     thd\<lparr>handler_tables_hash := map_option (hash_remove (tl_alias e)) (handler_tables_hash thd)\<rparr>"

definition hash_write :: "TABLE_LIST \<Rightarrow> ('e, 'w) THD \<Rightarrow> ('e, 'w) THD" where
  "hash_write e thd =
     thd\<lparr>handler_tables_hash := map_option (hash_store e) (handler_tables_hash thd)\<rparr>"

subsection \<open>\<^verbatim>\<open>mysql_ha_close_table\<close>\<close>

text \<open>
  Modelled from the spec: \<^verbatim>\<open>close_thread_table\<close> and \<^verbatim>\<open>MDL_context::release_lock\<close> are
  not among the sources. The first unlinks the table from the list it is called on, here
  \<^verbatim>\<open>thd->handler_tables\<close>, and gives the object back to the table cache; the second
  takes one ticket out of a context.
\<close>

definition close_thread_table :: "table_id \<Rightarrow> ('e, 'w) THD \<Rightarrow> ('e, 'w) THD" where
  "close_thread_table t thd =
     thd\<lparr>handler_tables := remove1 t (handler_tables thd),
         heap := (heap thd)(t := (heap thd t)\<lparr>in_use := False\<rparr>),
         trace := trace thd @ [Ev_close_thread_table t]\<rparr>"

definition release_lock :: "ticket option \<Rightarrow> ticket list \<Rightarrow> ticket list" where
  "release_lock k ctx = (case k of None \<Rightarrow> ctx | Some t \<Rightarrow> remove1 t ctx)"

text \<open>
  The table of the entry is looked for in \<^verbatim>\<open>thd->handler_tables\<close>. Found there, its scan
  is ended, \<^verbatim>\<open>close_thread_table\<close> closes it, and its ticket is released from
  \<^verbatim>\<open>thd->handler_mdl_context\<close>. Not found, and the entry has a table, it must be a
  temporary table: its scan is ended, its \<^verbatim>\<open>query_id\<close> is set and it is marked as no
  longer opened by a handler. In all cases the entry's \<^verbatim>\<open>table\<close> and
  \<^verbatim>\<open>mdl_request.ticket\<close> become \<^verbatim>\<open>NULL\<close>. The result is the session and the entry, both
  as written.
\<close>

definition mysql_ha_close_table ::
  "('e, 'r, 'w) collaborators \<Rightarrow> ('e, 'w) THD \<Rightarrow> TABLE_LIST \<Rightarrow> ('e, 'w) THD \<times> TABLE_LIST" where
  "mysql_ha_close_table X thd tables =
     (let thd' =
        (case tl_table tables of
           None \<Rightarrow> thd
         | Some t \<Rightarrow>
             if t \<in> set (handler_tables thd) then
               (let thd1 = thd\<lparr>heap := (heap thd)(t :=
                             (heap thd t)\<lparr>t_file := ha_index_or_rnd_end (x_engine X) (t_file (heap thd t))\<rparr>)\<rparr>;
                    ticket = mdl_ticket (heap thd1 t);
                    thd2 = close_thread_table t thd1
                in thd2\<lparr>handler_mdl_context := release_lock ticket (handler_mdl_context thd2)\<rparr>)
             else
               thd\<lparr>heap := (heap thd)(t :=
                     (heap thd t)\<lparr>t_file := ha_index_or_rnd_end (x_engine X) (t_file (heap thd t)),
                                  query_id := thd_query_id thd,
                                  open_by_handler := False\<rparr>)\<rparr>)
      in (thd', tables\<lparr>tl_table := None, mdl_request_ticket := None\<rparr>))"

subsection \<open>\<^verbatim>\<open>mysql_ha_open\<close>\<close>

text \<open>
  Modelled from the spec: what \<^verbatim>\<open>open_tables\<close> and \<^verbatim>\<open>close_thread_tables\<close>, which are
  not among the sources, do to the session. \<^verbatim>\<open>open_tables\<close> reports whether it failed,
  links the opened tables into \<^verbatim>\<open>thd->open_tables\<close>, puts their tickets into
  \<^verbatim>\<open>thd->mdl_context\<close> and sets \<^verbatim>\<open>hash_tables->table\<close>; new \<^verbatim>\<open>TABLE\<close> objects get
  unused addresses and are in use. \<^verbatim>\<open>close_thread_tables\<close> closes every table of
  \<^verbatim>\<open>thd->open_tables\<close>.
\<close>

definition tickets_of :: "'e TABLE list \<Rightarrow> ticket list" where
  "tickets_of Ts = concat (map (\<lambda>T. case mdl_ticket T of None \<Rightarrow> [] | Some k \<Rightarrow> [k]) Ts)"

definition new_tables :: "'e TABLE list \<Rightarrow> ('e, 'w) THD \<Rightarrow> ('e, 'w) THD" where
  "new_tables Ts thd =
     thd\<lparr>heap := (\<lambda>x. if next_table thd \<le> x \<and> x < next_table thd + length Ts
                       then (Ts ! (x - next_table thd))\<lparr>in_use := True\<rparr> else heap thd x),
         next_table := next_table thd + length Ts\<rparr>"

fun apply_open_outcome ::
  "'e open_outcome \<Rightarrow> TABLE_LIST \<Rightarrow> ('e, 'w) THD \<Rightarrow> error option \<times> ('e, 'w) THD \<times> TABLE_LIST" where
  "apply_open_outcome Open_error e thd = (Some ER_REPORTED, thd, e)"
| "apply_open_outcome (Open_one err T) e thd =
     (if err then Some ER_REPORTED else None,
      (new_tables [T] thd)\<lparr>open_tables := next_table thd # open_tables thd,
                            mdl_context := tickets_of [T] @ mdl_context thd\<rparr>,
      e\<lparr>tl_table := Some (next_table thd), mdl_request_ticket := mdl_ticket T\<rparr>)"
| "apply_open_outcome (Open_temporary T) e thd =
     (None, new_tables [T] thd, e\<lparr>tl_table := Some (next_table thd)\<rparr>)"
| "apply_open_outcome (Open_multi T1 T2 Ts) e thd =
     (None,
      (new_tables (T1 # T2 # Ts) thd)
        \<lparr>open_tables := next_table thd # Suc (next_table thd) #
                          map (\<lambda>i. next_table thd + 2 + i) [0 ..< length Ts] @ open_tables thd,
         mdl_context := tickets_of (T1 # T2 # Ts) @ mdl_context thd\<rparr>,
      e\<lparr>tl_table := Some (next_table thd)\<rparr>)"

definition close_thread_tables :: "('e, 'w) THD \<Rightarrow> ('e, 'w) THD" where
  "close_thread_tables thd =
     thd\<lparr>heap := (\<lambda>x. if x \<in> set (open_tables thd) then (heap thd x)\<lparr>in_use := False\<rparr>
                       else heap thd x),
         open_tables := [],
         trace := trace thd @ [Ev_close_thread_tables]\<rparr>"

text \<open>
  The first checks: the hash is initialised if it is not, else a first open of an alias
  that is in the hash already is refused.
\<close>

definition ha_open_hash_check ::
  "('e, 'r, 'w) collaborators \<Rightarrow> TABLE_LIST \<Rightarrow> bool \<Rightarrow> ('e, 'w) THD
    \<Rightarrow> (error \<times> ('e, 'w) THD) + ('e, 'w) THD" where
  "ha_open_hash_check X tables reopen thd =
     (if handler_tables_hash thd = None then
        (let (ok, w) = x_alloc X (world thd)
         in if ok then Inr (thd\<lparr>handler_tables_hash := Some [], world := w\<rparr>)
            else Inl (ER_REPORTED, thd\<lparr>world := w\<rparr>))
      else if \<not> reopen \<and> my_hash_search thd (tl_alias tables) \<noteq> None
        then Inl (ER_NONUNIQ_TABLE, thd)
      else Inr thd)"

text \<open>
  The copy of the \<^verbatim>\<open>TABLE_LIST\<close> and its insertion into the hash, on a first open;
  on a re-open \<^verbatim>\<open>hash_tables\<close> is \<^verbatim>\<open>tables\<close>, the hashed object itself.
\<close>

definition ha_open_copy ::
  "('e, 'r, 'w) collaborators \<Rightarrow> TABLE_LIST \<Rightarrow> bool \<Rightarrow> ('e, 'w) THD
    \<Rightarrow> (error \<times> ('e, 'w) THD) + (('e, 'w) THD \<times> TABLE_LIST)" where
  "ha_open_copy X tables reopen thd =
     (if \<not> reopen then
        (let (ok, w) = x_alloc X (world thd)
         in if \<not> ok then Inl (ER_REPORTED, thd\<lparr>world := w\<rparr>)
            else
              (let hash_tables = tables\<lparr>mdl_request_ticket := None\<rparr>;
                   (ok', w') = x_alloc X w
               in if \<not> ok' then Inl (ER_REPORTED, thd\<lparr>world := w'\<rparr>)
                  else Inr (thd\<lparr>handler_tables_hash :=
                                   map_option (\<lambda>es. es @ [hash_tables]) (handler_tables_hash thd),
                                 world := w'\<rparr>, hash_tables)))
      else Inr (thd, tables))"

text \<open>
  The label \<^verbatim>\<open>err\<close>: a table the entry still points to is closed, and on a first
  open the entry is deleted from the hash.
\<close>

definition ha_open_err ::
  "('e, 'r, 'w) collaborators \<Rightarrow> bool \<Rightarrow> TABLE_LIST \<Rightarrow> error \<Rightarrow> ('e, 'w) THD
    \<Rightarrow> error option \<times> ('e, 'w) THD" where
  "ha_open_err X reopen hash_tables e thd =
     (let (thd1, hash_tables1) =
            (if tl_table hash_tables \<noteq> None then mysql_ha_close_table X thd hash_tables
             else (thd, hash_tables));
          thd2 = hash_write hash_tables1 thd1
      in (Some e, if \<not> reopen then my_hash_delete hash_tables1 thd2 else thd2))"

text \<open>
  From the save of \<^verbatim>\<open>thd->open_tables\<close> and \<^verbatim>\<open>thd->mdl_context\<close> on;
  \<open>ha_open_and_merge\<close> is the part from \<^verbatim>\<open>open_tables\<close> to the restore. More than one
  table opened is closed at once and is an error; a single one is linked into
  \<^verbatim>\<open>thd->handler_tables\<close>. The tickets taken are merged into
  \<^verbatim>\<open>thd->handler_mdl_context\<close>, and both saved values are put back. The failed
  \<^verbatim>\<open>DBUG_ASSERT(! hash_tables->table)\<close> stops the server where it stands. A \<^verbatim>\<open>NULL\<close>
  \<^verbatim>\<open>hash_tables->table\<close> after a successful \<^verbatim>\<open>open_tables\<close> would be dereferenced; no
  outcome of \<^verbatim>\<open>open_tables\<close> above leads there.
\<close>

definition ha_open_and_merge ::
  "('e, 'r, 'w) collaborators \<Rightarrow> table_id list \<Rightarrow> ticket list \<Rightarrow> TABLE_LIST \<Rightarrow> ('e, 'w) THD
    \<Rightarrow> error option \<times> ('e, 'w) THD \<times> TABLE_LIST" where
  "ha_open_and_merge X backup_open_tables backup_mdl_context hash_tables thd1 =
     (let (outcome, w) =
            x_open_tables X (world thd1) (open_tables thd1) (mdl_context thd1) hash_tables;
          (error, thd2, hash_tables1) =
            apply_open_outcome outcome hash_tables
              (thd1\<lparr>world := w,
                    trace := trace thd1 @
                      [Ev_open_tables (tl_alias hash_tables) (open_tables thd1) (mdl_context thd1)]\<rparr>);
          (error', thd3) =
            (case open_tables thd2 of
               [] \<Rightarrow> (error, thd2)
             | t # ts \<Rightarrow>
                 if ts \<noteq> [] then (Some ER_ILLEGAL_HA, (close_thread_tables thd2)\<lparr>mdl_context := []\<rparr>)
                 else (error, thd2\<lparr>handler_tables := t # handler_tables thd2\<rparr>));
          thd4 = thd3\<lparr>handler_mdl_context := mdl_context thd3 @ handler_mdl_context thd3,
                      mdl_context := []\<rparr>;
          thd5 = hash_write hash_tables1
                   (thd4\<lparr>open_tables := backup_open_tables, mdl_context := backup_mdl_context\<rparr>)
      in (error', thd5, hash_tables1))"

definition ha_open_body ::
  "('e, 'r, 'w) collaborators \<Rightarrow> bool \<Rightarrow> TABLE_LIST \<Rightarrow> ('e, 'w) THD
    \<Rightarrow> error option \<times> ('e, 'w) THD" where
  "ha_open_body X reopen hash_tables thd =
     (let backup_open_tables = open_tables thd;
          backup_mdl_context = mdl_context thd;
          thd1 = thd\<lparr>open_tables := [], mdl_context := []\<rparr>
      in if tl_table hash_tables \<noteq> None then (Some EX_ASSERT, thd1)
         else
           (let (error', thd5, hash_tables1) =
                  ha_open_and_merge X backup_open_tables backup_mdl_context hash_tables thd1
            in case error' of
                 Some e \<Rightarrow> ha_open_err X reopen hash_tables1 e thd5
               | None \<Rightarrow>
                   (case tl_table hash_tables1 of
                      None \<Rightarrow> (Some EX_ASSERT, thd5)
                    | Some t \<Rightarrow>
                        if \<not> can_sql_handler (heap thd5 t)
                          then ha_open_err X reopen hash_tables1 ER_ILLEGAL_HA thd5
                        else (None, thd5\<lparr>heap := (heap thd5)(t :=
                                           (heap thd5 t)\<lparr>open_by_handler := True\<rparr>)\<rparr>))))"

definition mysql_ha_open ::
  "('e, 'r, 'w) collaborators \<Rightarrow> TABLE_LIST \<Rightarrow> bool \<Rightarrow> ('e, 'w) THD
    \<Rightarrow> error option \<times> ('e, 'w) THD" where
  "mysql_ha_open X tables reopen thd =
     (if locked_tables_mode thd then (Some ER_LOCK_OR_ACTIVE_TRANSACTION, thd)
      else if schema_table tables then (Some ER_WRONG_USAGE, thd)
      else
        (case ha_open_hash_check X tables reopen thd of
           Inl (e, thd1) \<Rightarrow> (Some e, thd1)
         | Inr thd1 \<Rightarrow>
             (case ha_open_copy X tables reopen thd1 of
                Inl (e, thd2) \<Rightarrow> (Some e, thd2)
              | Inr (thd2, hash_tables) \<Rightarrow> ha_open_body X reopen hash_tables thd2)))"

subsection \<open>\<^verbatim>\<open>mysql_ha_close\<close>\<close>

definition mysql_ha_close ::
  "('e, 'r, 'w) collaborators \<Rightarrow> TABLE_LIST \<Rightarrow> ('e, 'w) THD \<Rightarrow> error option \<times> ('e, 'w) THD" where
  "mysql_ha_close X tables thd =
     (if locked_tables_mode thd then (Some ER_LOCK_OR_ACTIVE_TRANSACTION, thd)
      else
        (case my_hash_search thd (tl_alias tables) of
           Some hash_tables \<Rightarrow>
             (let (thd1, hash_tables1) = mysql_ha_close_table X thd hash_tables
              in (None, my_hash_delete hash_tables1 (hash_write hash_tables1 thd1)))
         | None \<Rightarrow> (Some ER_UNKNOWN_TABLE, thd)))"

subsection \<open>\<^verbatim>\<open>mysql_ha_flush\<close>\<close>

text \<open>
  The test of \<^verbatim>\<open>mysql_ha_flush\<close> on one hashed entry: its table is open, and has a
  ticket with a pending conflicting lock or a share that needs a re-open.
\<close>

definition flush_wanted :: "('e, 'w) THD \<Rightarrow> TABLE_LIST \<Rightarrow> bool" where
  "flush_wanted thd e =
     (case tl_table e of
        None \<Rightarrow> False
      | Some t \<Rightarrow>
          (mdl_ticket (heap thd t) \<noteq> None \<and> has_pending_conflicting_lock (heap thd t)) \<or>
          needs_reopen (heap thd t))"

text \<open>The body of the loop for the hashed entry number \<open>i\<close>, and the loop.\<close>

definition flush_entry ::
  "('e, 'r, 'w) collaborators \<Rightarrow> nat \<Rightarrow> ('e, 'w) THD \<Rightarrow> ('e, 'w) THD" where
  "flush_entry X i thd =
     (let hash_tables = hash_records thd ! i
      in if flush_wanted thd hash_tables then
           (let (thd1, hash_tables1) = mysql_ha_close_table X thd hash_tables
            in thd1\<lparr>handler_tables_hash :=
                      map_option (\<lambda>es. es[i := hash_tables1]) (handler_tables_hash thd1)\<rparr>)
         else thd)"

definition mysql_ha_flush :: "('e, 'r, 'w) collaborators \<Rightarrow> ('e, 'w) THD \<Rightarrow> ('e, 'w) THD" where
  "mysql_ha_flush X thd = fold (flush_entry X) [0 ..< length (hash_records thd)] thd"

subsection \<open>\<^verbatim>\<open>mysql_ha_read\<close>\<close>

text \<open>
  The arguments of \<^verbatim>\<open>mysql_ha_read\<close>. \<open>rd_cond_fix_fails\<close> says whether
  \<^verbatim>\<open>fix_fields\<close> or \<^verbatim>\<open>check_cols\<close> fails on the condition, \<open>rd_insert_fields_fails\<close>
  whether \<^verbatim>\<open>insert_fields\<close> fails, \<open>rd_alloc_ok\<close> whether \<^verbatim>\<open>thd->calloc\<close> succeeds
  and \<open>rd_send_ok\<close> whether a row can be sent after the rows already sent.
\<close>

record 'r read_req =
  rd_tables :: TABLE_LIST
  rd_mode :: enum_ha_read_modes
  rd_keyname :: "string option"
  rd_key_expr :: "key_item list"
  rd_ha_rkey_mode :: ha_rkey_function
  rd_cond :: "('r \<Rightarrow> bool) option"
  rd_cond_fix_fails :: bool
  rd_insert_fields_fails :: bool
  rd_select_limit_cnt :: nat
  rd_offset_limit_cnt :: nat
  rd_alloc_ok :: bool
  rd_send_ok :: "'r list \<Rightarrow> 'r \<Rightarrow> bool"

text \<open>
  One pass from the label \<^verbatim>\<open>retry\<close> to the test of the lock: the pass ends at
  \<^verbatim>\<open>goto retry\<close>, at \<^verbatim>\<open>goto err0\<close>, or with the table locked.
\<close>

datatype ('e, 'w) attempt =
    Retry "('e, 'w) THD"
  | Failed error "('e, 'w) THD"
  | Locked table_id nat "('e, 'w) THD"

text \<open>
  The alias is looked up; an entry whose table is closed is re-opened with
  \<^verbatim>\<open>mysql_ha_open(thd, hash_tables, 1)\<close>, and \<open>ha_read_lock\<close> goes on from
  \<^verbatim>\<open>table= hash_tables->table\<close>. \<^verbatim>\<open>mysql_lock_tables\<close> runs with
  \<^verbatim>\<open>thd->open_tables\<close> set to \<^verbatim>\<open>thd->handler_tables\<close> and the old value is put back.
  On \<^verbatim>\<open>need_reopen\<close> the table is closed, \<^verbatim>\<open>some_tables_deleted\<close> is reset and the read
  starts again.
\<close>

definition ha_read_lock ::
  "('e, 'r, 'w) collaborators \<Rightarrow> 'r read_req \<Rightarrow> ('e, 'w) THD \<Rightarrow> ('e, 'w) attempt" where
  "ha_read_lock X rq thd =
     (case my_hash_search thd (tl_alias (rd_tables rq)) of
        None \<Rightarrow> Failed ER_UNKNOWN_TABLE thd
      | Some hash_tables \<Rightarrow>
          (case tl_table hash_tables of
             None \<Rightarrow> Failed ER_UNKNOWN_TABLE thd
           | Some t \<Rightarrow>
               (let backup_open_tables = open_tables thd;
                    thd1 = thd\<lparr>open_tables := handler_tables thd\<rparr>;
                    ((lock, need_reopen), w) = x_lock_tables X (world thd1) t;
                    thd2 = thd1\<lparr>world := w, trace := trace thd1 @ [Ev_lock_tables t],
                                open_tables := backup_open_tables\<rparr>
                in if need_reopen then
                     (let (thd3, hash_tables1) = mysql_ha_close_table X thd2 hash_tables
                      in Retry ((hash_write hash_tables1 thd3)\<lparr>some_tables_deleted := False\<rparr>))
                   else
                     (case lock of
                        None \<Rightarrow> Failed ER_REPORTED thd2
                      | Some l \<Rightarrow> Locked t l thd2))))"

definition ha_read_attempt ::
  "('e, 'r, 'w) collaborators \<Rightarrow> 'r read_req \<Rightarrow> ('e, 'w) THD \<Rightarrow> ('e, 'w) attempt" where
  "ha_read_attempt X rq thd =
     (case my_hash_search thd (tl_alias (rd_tables rq)) of
        None \<Rightarrow> Failed ER_UNKNOWN_TABLE thd
      | Some hash_tables \<Rightarrow>
          (case tl_table hash_tables of
             None \<Rightarrow>
               (case mysql_ha_open X hash_tables True thd of
                  (Some e, thd1) \<Rightarrow> Failed e thd1
                | (None, thd1) \<Rightarrow> ha_read_lock X rq thd1)
           | Some t \<Rightarrow> ha_read_lock X rq thd))"

text \<open>
  From the lock to the return: the condition is fixed, the index name is resolved, the
  field list is built, and the row loop runs on the cursor of the table. Both labels
  \<^verbatim>\<open>ok\<close> and \<^verbatim>\<open>err\<close> unlock the table. The result is the error, if any, the rows
  sent and the session; \<open>None\<close> says the row loop did not end within \<open>fuel\<close> passes.
\<close>

definition scan_req_of :: "'r read_req \<Rightarrow> int \<Rightarrow> 'e TABLE \<Rightarrow> 'r scan_req" where
  "scan_req_of rq kno T =
     \<lparr>keyname = (rd_keyname rq \<noteq> None), keyno = kno,
      key_parts = (if 0 \<le> kno \<and> nat kno < length (key_info T) then key_info T ! nat kno else 0),
      key_expr = rd_key_expr rq, ha_rkey_mode = rd_ha_rkey_mode rq, cond = rd_cond rq,
      select_limit_cnt = rd_select_limit_cnt rq, offset_limit_cnt = rd_offset_limit_cnt rq,
      alloc_ok = rd_alloc_ok rq, send_ok = rd_send_ok rq\<rparr>"

definition unlock_tables :: "('e, 'w) THD \<Rightarrow> ('e, 'w) THD" where
  "unlock_tables thd = thd\<lparr>trace := trace thd @ [Ev_unlock_tables]\<rparr>"

definition ha_read_rows ::
  "('e, 'r, 'w) collaborators \<Rightarrow> nat \<Rightarrow> 'r read_req \<Rightarrow> table_id \<Rightarrow> ('e, 'w) THD
    \<Rightarrow> (error option \<times> 'r list \<times> ('e, 'w) THD) option" where
  "ha_read_rows X fuel rq t thd =
     (let T = heap thd t
      in if rd_cond rq \<noteq> None \<and> rd_cond_fix_fails rq
           then Some (Some ER_REPORTED, [], unlock_tables thd)
         else
           (let kno = (case rd_keyname rq of
                         None \<Rightarrow> - 1
                       | Some kn \<Rightarrow> x_find_type X kn (keynames T) - 1)
            in if rd_keyname rq \<noteq> None \<and> kno < 0
                 then Some (Some ER_KEY_DOES_NOT_EXITS, [], unlock_tables thd)
               else if rd_insert_fields_fails rq then Some (Some ER_REPORTED, [], unlock_tables thd)
               else
                 (case row_loop fuel (x_engine X) (x_record0 X) (scan_req_of rq kno T)
                         \<lparr>mode = rd_mode rq, key = [], tfile = t_file T, num_rows = 0, sent = []\<rparr> of
                    None \<Rightarrow> None
                  | Some (r, s) \<Rightarrow>
                      Some (r, sent s,
                            unlock_tables (thd\<lparr>heap := (heap thd)(t := T\<lparr>t_file := tfile s\<rparr>)\<rparr>)))))"

text \<open>
  The jumps to \<^verbatim>\<open>retry\<close> have no bound in the code: the first argument bounds them
  here, and \<open>None\<close> says the bound was reached.
\<close>

fun ha_read_retry ::
  "nat \<Rightarrow> ('e, 'r, 'w) collaborators \<Rightarrow> nat \<Rightarrow> 'r read_req \<Rightarrow> ('e, 'w) THD
    \<Rightarrow> (error option \<times> 'r list \<times> ('e, 'w) THD) option" where
  "ha_read_retry 0 X fuel rq thd = None"
| "ha_read_retry (Suc n) X fuel rq thd =
     (case ha_read_attempt X rq thd of
        Retry thd' \<Rightarrow> ha_read_retry n X fuel rq thd'
      | Failed e thd' \<Rightarrow> Some (Some e, [], thd')
      | Locked t l thd' \<Rightarrow> ha_read_rows X fuel rq t thd')"

definition mysql_ha_read ::
  "nat \<Rightarrow> ('e, 'r, 'w) collaborators \<Rightarrow> nat \<Rightarrow> 'r read_req \<Rightarrow> ('e, 'w) THD
    \<Rightarrow> (error option \<times> 'r list \<times> ('e, 'w) THD) option" where
  "mysql_ha_read retries X fuel rq thd =
     (if locked_tables_mode thd then Some (Some ER_LOCK_OR_ACTIVE_TRANSACTION, [], thd)
      else ha_read_retry retries X fuel rq thd)"

text \<open>The session after \<open>k\<close> passes that each ended at \<^verbatim>\<open>goto retry\<close>, if they did.\<close>

fun after_retries ::
  "nat \<Rightarrow> ('e, 'r, 'w) collaborators \<Rightarrow> 'r read_req \<Rightarrow> ('e, 'w) THD \<Rightarrow> ('e, 'w) THD option" where
  "after_retries 0 X rq thd = Some thd"
| "after_retries (Suc k) X rq thd =
     (case ha_read_attempt X rq thd of
        Retry thd' \<Rightarrow> after_retries k X rq thd'
      | Failed e thd' \<Rightarrow> None
      | Locked t l thd' \<Rightarrow> None)"

subsection \<open>A concrete session\<close>

text \<open>
  Collaborators for concrete runs: every table opens as one base table with ticket 5,
  allocation succeeds, and the world is a counter: \<^verbatim>\<open>mysql_lock_tables\<close> reports
  \<^verbatim>\<open>need_reopen\<close> while it is positive and counts it down.
\<close>

definition demo_TABLE :: "unit TABLE" where
  "demo_TABLE =
     \<lparr>t_file = \<lparr>inited = NONE, engine = (), calls = []\<rparr>, in_use = False, mdl_ticket = Some 5,
      open_by_handler = False, query_id = 0, can_sql_handler = True,
      has_pending_conflicting_lock = False, needs_reopen = False,
      keynames = [''PRIMARY''], key_info = [1]\<rparr>"

definition demo_X :: "(unit, unit, nat) collaborators" where
  "demo_X =
     \<lparr>x_engine = ok_engine, x_record0 = (\<lambda>e. ()),
      x_open_tables = (\<lambda>w ts ks tl. (Open_one False demo_TABLE, w)),
      x_lock_tables = (\<lambda>w t. if 0 < w then ((None, True), w - 1) else ((Some 1, False), w)),
      x_alloc = (\<lambda>w. (True, w)),
      x_find_type = (\<lambda>kn kns. 1)\<rparr>"

definition demo_tables :: "string \<Rightarrow> TABLE_LIST" where
  "demo_tables a =
     \<lparr>db = ''test'', table_name = ''t'', tl_alias = a, tl_table = None,
      schema_table = False, mdl_request_ticket = None\<rparr>"

definition demo_thd :: "nat \<Rightarrow> (unit, nat) THD" where
  "demo_thd w =
     \<lparr>locked_tables_mode = False, handler_tables_hash = None, handler_tables = [],
      open_tables = [], mdl_context = [], handler_mdl_context = [],
      heap = (\<lambda>t. demo_TABLE), next_table = 0, some_tables_deleted = False, thd_query_id = 0,
      world = w, trace = []\<rparr>"

definition demo_read :: "unit read_req" where
  "demo_read =
     \<lparr>rd_tables = demo_tables ''h1'', rd_mode = RFIRST, rd_keyname = None, rd_key_expr = [],
      rd_ha_rkey_mode = HA_READ_KEY_EXACT, rd_cond = None, rd_cond_fix_fails = False,
      rd_insert_fields_fails = False, rd_select_limit_cnt = 1, rd_offset_limit_cnt = 0,
      rd_alloc_ok = True, rd_send_ok = (\<lambda>rows row. True)\<rparr>"

text \<open>
  The same collaborators with an \<^verbatim>\<open>open_tables\<close> that opens two tables for the one
  name, as for a MERGE table; and the session after \<^verbatim>\<open>HANDLER t OPEN AS h1\<close>.
\<close>

definition demo_X_multi :: "(unit, unit, nat) collaborators" where
  "demo_X_multi =
     demo_X\<lparr>x_open_tables := (\<lambda>w ts ks tl. (Open_multi demo_TABLE demo_TABLE [], w))\<rparr>"

definition demo_thd_h1 :: "nat \<Rightarrow> (unit, nat) THD" where
  "demo_thd_h1 w = snd (mysql_ha_open demo_X (demo_tables ''h1'') False (demo_thd w))"

definition demo_entry_h1 :: "table_id option \<Rightarrow> TABLE_LIST" where
  "demo_entry_h1 t =
     \<lparr>db = ''test'', table_name = ''t'', tl_alias = ''h1'', tl_table = t,
      schema_table = False, mdl_request_ticket = (if t = None then None else Some 5)\<rparr>"


text \<open>
  No two hashed entries point to the same \<^verbatim>\<open>TABLE\<close>: each open table belongs to one
  entry.
\<close>

definition exclusive_tables :: "TABLE_LIST list \<Rightarrow> bool" where
  "exclusive_tables es =
     (\<forall>i < length es. \<forall>j < length es.
        i \<noteq> j \<longrightarrow> tl_table (es ! i) = None \<or> tl_table (es ! i) \<noteq> tl_table (es ! j))"

text \<open>
  A session with two open handlers, \<open>h1\<close> on a table whose share needs a re-open and
  \<open>h2\<close> on a table that does not.
\<close>

definition demo_thd_two :: "(unit, nat) THD" where
  "demo_thd_two =
     \<lparr>locked_tables_mode = False,
      handler_tables_hash = Some [demo_entry_h1 (Some 0), (demo_entry_h1 (Some 1))\<lparr>tl_alias := ''h2''\<rparr>],
      handler_tables = [1, 0], open_tables = [], mdl_context = [], handler_mdl_context = [5, 5],
      heap = (\<lambda>t. if t = 0
                   then demo_TABLE\<lparr>in_use := True, open_by_handler := True, needs_reopen := True\<rparr>
                   else if t = 1 then demo_TABLE\<lparr>in_use := True, open_by_handler := True\<rparr>
                   else demo_TABLE),
      next_table = 2, some_tables_deleted = False, thd_query_id = 0, world = 0, trace = []\<rparr>"

section \<open>Properties of the scan engine\<close>

lemmas demo_defs = demo_req_def demo_scan_def ok_engine_def ha_call_def ha_index_init_def
  ha_index_or_rnd_end_def ha_rnd_init_def do_rkey_def do_rfirst_def do_rlast_def
  rkey_to_rnext_def

lemma rkey_to_rnext_spec: "rkey_to_rnext ! rkey_ord c = spec_continuation c"
  by (cases c) (simp_all add: rkey_to_rnext_def)

lemma do_rkey_mode:
  "do_rkey eng rq s = Inr (err, s1) \<Longrightarrow>
     mode s1 = spec_continuation (ha_rkey_mode rq) \<and> keyname rq"
  by (auto simp: do_rkey_def rkey_to_rnext_spec Let_def
           split: if_splits sum.splits prod.splits)

text \<open>
  C1. A pass in mode \<^verbatim>\<open>RKEY\<close> that reaches the engine leaves the mode the comparator
  selects in the eight-entry table, whatever the engine answers and whatever the state
  was. The pass after it keeps that mode; when the index scan is active it issues exactly
  one primitive, the one of that mode: \<^verbatim>\<open>index_next_same\<close> on the key of the seek
  after Exact (no second seek, no initialisation), \<^verbatim>\<open>index_next\<close> after
  GreaterOrEqual, \<^verbatim>\<open>index_prev\<close> after LessOrEqual.
\<close>

theorem C1_seek_continuation:
  assumes "mode s = RKEY"
    and "read_switch eng rq s = Inr (err, s1)"
    and "read_switch eng rq s1 = Inr (err2, s2)"
  shows "mode s1 = spec_continuation (ha_rkey_mode rq) \<and> mode s2 = mode s1 \<and>
         (inited (tfile s1) \<noteq> NONE \<longrightarrow>
            calls (tfile s2) = calls (tfile s1) @ [continuation_prim (mode s1) (key s1)])"
proof -
  from assms(1,2) have rk: "do_rkey eng rq s = Inr (err, s1)" by simp
  from do_rkey_mode [OF rk] have m1: "mode s1 = spec_continuation (ha_rkey_mode rq)"
    and kn: "keyname rq" by simp_all
  show ?thesis
  proof (cases "ha_rkey_mode rq")
    case HA_READ_KEY_EXACT
    with m1 kn assms(3) show ?thesis
      by (auto simp: ha_call_def Let_def split: prod.splits)
  next
    case HA_READ_KEY_OR_NEXT
    with m1 kn assms(3) show ?thesis
      by (auto simp: ha_call_def do_rfirst_def Let_def split: prod.splits if_splits)
  next
    case HA_READ_KEY_OR_PREV
    with m1 kn assms(3) show ?thesis
      by (auto simp: ha_call_def do_rlast_def Let_def split: prod.splits if_splits)
  next
    case HA_READ_AFTER_KEY
    with m1 kn assms(3) show ?thesis
      by (auto simp: ha_call_def do_rfirst_def Let_def split: prod.splits if_splits)
  next
    case HA_READ_BEFORE_KEY
    with m1 kn assms(3) show ?thesis
      by (auto simp: ha_call_def do_rlast_def Let_def split: prod.splits if_splits)
  next
    case HA_READ_PREFIX
    with m1 kn assms(3) show ?thesis
      by (auto simp: ha_call_def do_rfirst_def Let_def split: prod.splits if_splits)
  next
    case HA_READ_PREFIX_LAST
    with m1 kn assms(3) show ?thesis
      by (auto simp: ha_call_def do_rlast_def Let_def split: prod.splits if_splits)
  next
    case HA_READ_PREFIX_LAST_OR_PREV
    with m1 kn assms(3) show ?thesis
      by (auto simp: ha_call_def do_rlast_def Let_def split: prod.splits if_splits)
  qed
qed

theorem C1_seek_continuation_witness:
  "mode (demo_scan RKEY) = RKEY \<and>
   read_switch ok_engine demo_req (demo_scan RKEY) = Inr (0, demo_s1) \<and>
   read_switch ok_engine demo_req demo_s1 = Inr (0, demo_s2) \<and>
   inited (tfile demo_s1) \<noteq> NONE \<and>
   mode demo_s1 = RNEXT \<and> mode demo_s2 = RNEXT \<and>
   calls (tfile demo_s2) = calls (tfile demo_s1) @ [P_INDEX_NEXT]"
proof -
  have h1: "mode (demo_scan RKEY) = RKEY" by (simp add: demo_scan_def)
  have h2: "read_switch ok_engine demo_req (demo_scan RKEY) = Inr (0, demo_s1)"
    by (simp add: demo_defs demo_s1_def)
  have h3: "read_switch ok_engine demo_req demo_s1 = Inr (0, demo_s2)"
    by (simp add: demo_defs demo_s1_def demo_s2_def)
  have h4: "inited (tfile demo_s1) \<noteq> NONE" by (simp add: demo_s1_def)
  from C1_seek_continuation [OF h1 h2 h3] h1 h2 h3 h4 show ?thesis
    by (simp add: demo_req_def demo_s1_def)
qed



subsection \<open>The rows a read emits\<close>

lemma read_switch_frame:
  "read_switch eng rq s = Inr (e, s') \<Longrightarrow> sent s' = sent s \<and> num_rows s' = num_rows s"
  by (auto simp: do_rfirst_def do_rlast_def do_rkey_def Let_def
           split: enum_ha_read_modes.splits if_splits prod.splits sum.splits)

lemma read_switch_indep:
  "read_switch eng rq (s\<lparr>sent := a, num_rows := b\<rparr>) =
     (case read_switch eng rq s of
        Inl e \<Rightarrow> Inl e
      | Inr (e, s') \<Rightarrow> Inr (e, s'\<lparr>sent := a, num_rows := b\<rparr>))"
  by (auto simp: do_rfirst_def do_rlast_def do_rkey_def Let_def
           split: enum_ha_read_modes.splits if_splits prod.splits sum.splits)

lemma scan_fetches_indep:
  "scan_fetches n eng record0 rq (s\<lparr>sent := a, num_rows := b\<rparr>) = scan_fetches n eng record0 rq s"
proof (induction n arbitrary: s)
  case 0
  show ?case by simp
next
  case (Suc n)
  show ?case
    by (simp add: read_switch_indep Suc.IH del: read_switch.simps split: sum.splits prod.splits)
qed

lemma scan_fetches_indep_num:
  "scan_fetches n eng record0 rq (s\<lparr>num_rows := b\<rparr>) = scan_fetches n eng record0 rq s"
  using scan_fetches_indep [where s = s and a = "sent s" and b = b and n = n] by simp

lemma matching_rows_Cons:
  "matching_rows rq ((e, r) # outs) =
     (if e = 0 \<and> \<not> cond_rejects rq r then r # matching_rows rq outs else matching_rows rq outs)"
  by (simp add: matching_rows_def)

lemma matching_rows_Nil: "matching_rows rq [] = []"
  by (simp add: matching_rows_def)

lemma row_loop_emits:
  assumes "scan_fetches (Suc (length outs)) eng record0 rq s = outs @ [(e_end, r_end)]"
    and "\<forall>(e, r) \<in> set outs. e = 0 \<or> e = HA_ERR_RECORD_DELETED"
    and "e_end = HA_ERR_KEY_NOT_FOUND \<or> e_end = HA_ERR_END_OF_FILE"
    and "\<forall>rows row. send_ok rq rows row"
    and "select_limit_cnt rq < 2 ^ 32 \<or> num_rows s + length (matching_rows rq outs) < 2 ^ 32"
  shows "\<exists>s'. row_loop (Suc (length outs) + n) eng record0 rq s = Some (None, s') \<and>
           sent s' = sent s @ drop (offset_limit_cnt rq - num_rows s)
                               (take (select_limit_cnt rq - num_rows s) (matching_rows rq outs))"
  using assms
proof (induction outs arbitrary: s)
  case Nil
  from Nil.prems(1) obtain s1 where sw: "read_switch eng rq s = Inr (e_end, s1)"
    by (auto simp del: read_switch.simps split: sum.splits prod.splits)
  from read_switch_frame [OF sw] have fr: "sent s1 = sent s" by simp
  from Nil.prems(3) have ne: "e_end \<noteq> 0" "e_end \<noteq> HA_ERR_RECORD_DELETED"
    by (auto simp: HA_ERR_KEY_NOT_FOUND_def HA_ERR_END_OF_FILE_def HA_ERR_RECORD_DELETED_def)
  show ?case using sw fr ne Nil.prems(3)
    by (auto simp: matching_rows_Nil simp del: read_switch.simps)
next
  case (Cons o1 outs)
  obtain e r where o1: "o1 = (e, r)" by (cases o1)
  from Cons.prems(1) o1 obtain s1 where sw: "read_switch eng rq s = Inr (e, s1)"
    and r: "r = record0 (engine (tfile s1))"
    and rest: "scan_fetches (Suc (length outs)) eng record0 rq s1 = outs @ [(e_end, r_end)]"
    by (auto simp del: read_switch.simps split: sum.splits prod.splits)
  from read_switch_frame [OF sw] have fr: "sent s1 = sent s" "num_rows s1 = num_rows s" by simp_all
  from Cons.prems(2) o1 have e: "e = 0 \<or> e = HA_ERR_RECORD_DELETED"
    and outs_ok: "\<forall>(e, r) \<in> set outs. e = 0 \<or> e = HA_ERR_RECORD_DELETED" by auto
  let ?L = "select_limit_cnt rq" and ?O = "offset_limit_cnt rq" and ?c = "num_rows s"
  show ?case
  proof (cases "?c < ?L")
    case False
    then show ?thesis by (simp del: read_switch.simps)
  next
    case lim: True
    show ?thesis
    proof (cases "e = 0 \<and> \<not> cond_rejects rq r")
      case False
      then have ms: "matching_rows rq (o1 # outs) = matching_rows rq outs"
        by (simp add: o1 matching_rows_Cons)
      from Cons.prems(5) ms fr have b: "?L < 2 ^ 32 \<or> num_rows s1 + length (matching_rows rq outs) < 2 ^ 32"
        by simp
      from Cons.IH [OF rest outs_ok Cons.prems(3) Cons.prems(4) b]
      obtain s' where "row_loop (Suc (length outs) + n) eng record0 rq s1 = Some (None, s')"
        and "sent s' = sent s1 @ drop (?O - num_rows s1) (take (?L - num_rows s1) (matching_rows rq outs))"
        by blast
      with False e lim sw r fr ms show ?thesis
        by (auto simp: HA_ERR_RECORD_DELETED_def simp del: read_switch.simps)
    next
      case True
      then have ms: "matching_rows rq (o1 # outs) = r # matching_rows rq outs"
        by (simp add: o1 matching_rows_Cons)
      from Cons.prems(5) ms lim have c1: "?c + 1 < 2 ^ 32" by auto
      then have md: "(?c + 1) mod 2 ^ 32 = ?c + 1" by simp
      show ?thesis
      proof (cases "?O \<le> ?c")
        case ge: True
        let ?s2 = "s1\<lparr>sent := sent s1 @ [r], num_rows := ?c + 1\<rparr>"
        have rest2: "scan_fetches (Suc (length outs)) eng record0 rq ?s2 = outs @ [(e_end, r_end)]"
          using rest by (simp only: scan_fetches_indep)
        from Cons.prems(5) ms have b: "?L < 2 ^ 32 \<or> num_rows ?s2 + length (matching_rows rq outs) < 2 ^ 32"
          by simp
        from Cons.IH [OF rest2 outs_ok Cons.prems(3) Cons.prems(4) b]
        obtain s' where l: "row_loop (Suc (length outs) + n) eng record0 rq ?s2 = Some (None, s')"
          and st: "sent s' = sent ?s2 @ drop (?O - num_rows ?s2) (take (?L - num_rows ?s2) (matching_rows rq outs))"
          by blast
        have tk: "take (?L - ?c) (r # matching_rows rq outs) = r # take (?L - (?c + 1)) (matching_rows rq outs)"
        proof -
          from lim have "?L - ?c = Suc (?L - (?c + 1))" by simp
          then show ?thesis by simp
        qed
        from True lim sw r fr ms ge l st md Cons.prems(4) tk show ?thesis
          by (simp del: read_switch.simps)
      next
        case lt: False
        let ?s2 = "s1\<lparr>num_rows := ?c + 1\<rparr>"
        have rest2: "scan_fetches (Suc (length outs)) eng record0 rq ?s2 = outs @ [(e_end, r_end)]"
          using rest by (simp only: scan_fetches_indep_num)
        from Cons.prems(5) ms have b: "?L < 2 ^ 32 \<or> num_rows ?s2 + length (matching_rows rq outs) < 2 ^ 32"
          by simp
        from Cons.IH [OF rest2 outs_ok Cons.prems(3) Cons.prems(4) b]
        obtain s' where l: "row_loop (Suc (length outs) + n) eng record0 rq ?s2 = Some (None, s')"
          and st: "sent s' = sent ?s2 @ drop (?O - num_rows ?s2) (take (?L - num_rows ?s2) (matching_rows rq outs))"
          by blast
        have tk: "take (?L - ?c) (r # matching_rows rq outs) = r # take (?L - (?c + 1)) (matching_rows rq outs)"
        proof -
          from lim have "?L - ?c = Suc (?L - (?c + 1))" by simp
          then show ?thesis by simp
        qed
        have dr: "?O - ?c = Suc (?O - (?c + 1))" using lt by simp
        from True lim sw r fr ms lt l st md tk dr show ?thesis
          by (simp del: read_switch.simps)
      qed
    qed
  qed
qed

lemmas script_defs = script_engine_def script_scan_def script_req_def ha_call_def
  ha_index_init_def ha_index_or_rnd_end_def ha_rnd_init_def do_rfirst_def do_rlast_def
  cond_rejects_def HA_ERR_END_OF_FILE_def HA_ERR_RECORD_DELETED_def HA_ERR_KEY_NOT_FOUND_def

text \<open>
  C4. A read over a source that yields the answers \<open>outs\<close> (rows and deleted records)
  and then end of scan or key not found, with every send succeeding, returns at the
  label \<^verbatim>\<open>ok\<close> and has emitted the matching rows number \<open>offset_limit_cnt + 1\<close> to
  \<open>select_limit_cnt\<close>: \<open>min select_limit_cnt N - offset_limit_cnt\<close> rows, none of
  them among the first \<open>offset_limit_cnt\<close> matching rows, where \<open>N\<close> counts the rows
  the condition accepts. \<^verbatim>\<open>select_limit_cnt\<close> bounds the rows counted, the skipped ones
  included: the count is \<open>min l (N - offset_limit_cnt)\<close> when \<open>select_limit_cnt\<close> is
  \<open>l + offset_limit_cnt\<close>. The 32-bit counter must not wrap: the limit or \<open>N\<close> is
  below \<open>2 ^ 32\<close>.
\<close>

theorem C4_limit_offset:
  assumes "scan_fetches (Suc (length outs)) eng record0 rq s = outs @ [(e_end, r_end)]"
    and "\<forall>(e, r) \<in> set outs. e = 0 \<or> e = HA_ERR_RECORD_DELETED"
    and "e_end = HA_ERR_KEY_NOT_FOUND \<or> e_end = HA_ERR_END_OF_FILE"
    and "\<forall>rows row. send_ok rq rows row"
    and "num_rows s = 0" and "sent s = []"
    and "select_limit_cnt rq < 2 ^ 32 \<or> length (matching_rows rq outs) < 2 ^ 32"
  shows "\<exists>s'. row_loop (Suc (length outs) + n) eng record0 rq s = Some (None, s') \<and>
           sent s' = drop (offset_limit_cnt rq) (take (select_limit_cnt rq) (matching_rows rq outs)) \<and>
           length (sent s') =
             min (select_limit_cnt rq) (length (matching_rows rq outs)) - offset_limit_cnt rq \<and>
           (\<forall>l. select_limit_cnt rq = l + offset_limit_cnt rq \<longrightarrow>
              length (sent s') = min l (length (matching_rows rq outs) - offset_limit_cnt rq))"
proof -
  from assms(5,7) have b: "select_limit_cnt rq < 2 ^ 32 \<or>
      num_rows s + length (matching_rows rq outs) < 2 ^ 32" by simp
  from row_loop_emits [OF assms(1) assms(2) assms(3) assms(4) b, of n]
  obtain s' where l: "row_loop (Suc (length outs) + n) eng record0 rq s = Some (None, s')"
    and st: "sent s' = sent s @ drop (offset_limit_cnt rq - num_rows s)
               (take (select_limit_cnt rq - num_rows s) (matching_rows rq outs))"
    by blast
  from st assms(5,6) have st': "sent s' =
      drop (offset_limit_cnt rq) (take (select_limit_cnt rq) (matching_rows rq outs))" by simp
  have len: "length (sent s') =
      min (select_limit_cnt rq) (length (matching_rows rq outs)) - offset_limit_cnt rq"
    by (simp add: st' min.commute)
  have "\<forall>l. select_limit_cnt rq = l + offset_limit_cnt rq \<longrightarrow>
      length (sent s') = min l (length (matching_rows rq outs) - offset_limit_cnt rq)"
    using len by auto
  with l st' len show ?thesis by blast
qed

text \<open>
  With \<open>select_limit_cnt = 1\<close> and \<open>offset_limit_cnt = 1\<close> over two matching rows the
  read emits no row, where \<open>min L (N - O)\<close> is one.
\<close>

theorem C4_limit_offset_counterexample:
  "scan_fetches (Suc (Suc (Suc 0))) script_engine fst (script_req 1 1)
     (script_scan RFIRST [(0, 10), (0, 20)]) = [(0, 10), (0, 20), (HA_ERR_END_OF_FILE, 20)] \<and>
   matching_rows (script_req 1 1) [(0, 10), (0, 20)] = [10, 20] \<and>
   row_loop (Suc (Suc (Suc 0))) script_engine fst (script_req 1 1)
     (script_scan RFIRST [(0, 10), (0, 20)]) = Some (None, cx4_final) \<and>
   sent cx4_final = [] \<and>
   length (sent cx4_final) \<noteq> min 1 (length [10, 20 :: int] - 1)"
  by (simp add: script_defs cx4_final_def matching_rows_def)

theorem C4_limit_offset_witness:
  "scan_fetches (Suc (length [(0, 10), (0, 20 :: int)])) script_engine fst (script_req 3 1)
     (script_scan RFIRST [(0, 10), (0, 20)]) = [(0, 10), (0, 20)] @ [(HA_ERR_END_OF_FILE, 20)] \<and>
   (\<exists>s'. row_loop (Suc (length [(0, 10), (0, 20 :: int)]) + 0) script_engine fst (script_req 3 1)
           (script_scan RFIRST [(0, 10), (0, 20)]) = Some (None, s') \<and>
         sent s' = [20] \<and> length (sent s') = min 3 2 - 1)"
proof -
  let ?outs = "[(0, 10), (0, 20 :: int)]"
  have h1: "scan_fetches (Suc (length ?outs)) script_engine fst (script_req 3 1)
     (script_scan RFIRST [(0, 10), (0, 20)]) = ?outs @ [(HA_ERR_END_OF_FILE, 20)]"
    by (simp add: script_defs)
  have h2: "\<forall>(e, r) \<in> set ?outs. e = 0 \<or> e = HA_ERR_RECORD_DELETED" by simp
  have h3: "HA_ERR_END_OF_FILE = HA_ERR_KEY_NOT_FOUND \<or> HA_ERR_END_OF_FILE = HA_ERR_END_OF_FILE"
    by simp
  have h4: "\<forall>rows row. send_ok (script_req 3 1) rows row" by (simp add: script_req_def)
  have h5: "num_rows (script_scan RFIRST [(0, 10), (0, 20)]) = 0" by (simp add: script_scan_def)
  have h6: "sent (script_scan RFIRST [(0, 10), (0, 20)]) = []" by (simp add: script_scan_def)
  have h7: "select_limit_cnt (script_req 3 1) < 2 ^ 32 \<or>
      length (matching_rows (script_req 3 1) ?outs) < 2 ^ 32" by (simp add: script_req_def)
  have ms: "matching_rows (script_req 3 1) ?outs = [10, 20]"
    by (simp add: matching_rows_def script_defs)
  from C4_limit_offset [OF h1 h2 h3 h4 h5 h6 h7, of 0] h1 ms show ?thesis
    by (simp add: script_req_def)
qed


subsection \<open>A deleted record\<close>

lemma row_loop_deleted:
  assumes "num_rows s < select_limit_cnt rq"
    and "read_switch eng rq s = Inr (HA_ERR_RECORD_DELETED, s1)"
  shows "row_loop (Suc k) eng record0 rq s = row_loop k eng record0 rq s1 \<and>
         num_rows s1 = num_rows s \<and> sent s1 = sent s"
  using assms read_switch_frame [OF assms(2)]
  by (simp add: HA_ERR_RECORD_DELETED_def del: read_switch.simps)

lemma read_switch_next_mode:
  "read_switch eng rq s = Inr (e, s1) \<Longrightarrow> mode s1 = spec_next_mode (ha_rkey_mode rq) (mode s)"
  by (cases "mode s")
     (auto simp: do_rfirst_def do_rlast_def Let_def dest: do_rkey_mode
           split: if_splits prod.splits)

lemma read_switch_retry:
  assumes "read_switch eng rq s = Inr (e, s1)" and "continues_scan s"
  shows "calls (tfile s1) = calls (tfile s) @ [retry_prim (keyname rq) (mode s) (key s)] \<and>
         (\<forall>e2 s2. read_switch eng rq s1 = Inr (e2, s2) \<longrightarrow>
            calls (tfile s2) = calls (tfile s1) @ [retry_prim (keyname rq) (mode s) (key s)])"
  using assms
  by (cases "mode s")
     (auto simp: continues_scan_def ha_call_def Let_def split: if_splits prod.splits)

lemma read_switch_continuation:
  assumes "read_switch eng rq s = Inr (e, s1)"
    and "inited (tfile s1) \<noteq> NONE \<or> mode s1 = RNEXT_SAME"
    and "read_switch eng rq s1 = Inr (e2, s2)"
  shows "calls (tfile s2) = calls (tfile s1) @ [retry_prim (keyname rq) (mode s1) (key s1)]"
proof -
  from read_switch_next_mode [OF assms(1)]
  have "mode s1 = RNEXT \<or> mode s1 = RPREV \<or> mode s1 = RNEXT_SAME"
    by (cases "mode s"; cases "ha_rkey_mode rq") simp_all
  with assms(2,3) show ?thesis
    by (auto simp: ha_call_def Let_def split: if_splits prod.splits)
qed


text \<open>
  C5. When a fetch reports a deleted record, the loop runs its next pass from the state
  the switch has left, with neither \<^verbatim>\<open>num_rows\<close> nor the rows sent changed, and in
  the mode the specification's state machine gives as next mode. Which primitive that pass
  issues: after a Next or Prev on an active scan, or a SamePrefix, the deleted record was
  reported by the primitive of that mode, and the next pass issues the same one again;
  after a First, a Last, a key seek, or a Next or Prev with no scan active, the next pass
  issues the primitive of the continuation mode (\<^verbatim>\<open>index_next\<close>, or \<^verbatim>\<open>rnd_next\<close>
  without an index, \<^verbatim>\<open>index_prev\<close>, \<^verbatim>\<open>index_next_same\<close>) when the scan is active,
  and is the First or Last pass once more when the initialisation left no scan active.
  A read whose source reports one deleted record among its answers emits the rows of a read
  whose source yields the same answers without that one: the matching rows number
  \<open>offset_limit_cnt + 1\<close> to \<open>select_limit_cnt\<close>, so the deleted record counts
  toward neither bound.
\<close>

theorem C5_record_deleted:
  assumes "scan_fetches (Suc (length (xs @ (HA_ERR_RECORD_DELETED, r) # ys))) engA recA rq sA =
             (xs @ (HA_ERR_RECORD_DELETED, r) # ys) @ [(eA, rA)]"
    and "scan_fetches (Suc (length (xs @ ys))) engB recB rq sB = (xs @ ys) @ [(eB, rB)]"
    and "\<forall>(e, r) \<in> set (xs @ ys). e = 0 \<or> e = HA_ERR_RECORD_DELETED"
    and "eA = HA_ERR_KEY_NOT_FOUND \<or> eA = HA_ERR_END_OF_FILE"
    and "eB = HA_ERR_KEY_NOT_FOUND \<or> eB = HA_ERR_END_OF_FILE"
    and "\<forall>rows row. send_ok rq rows row"
    and "num_rows sA = 0" and "sent sA = []" and "num_rows sB = 0" and "sent sB = []"
    and "select_limit_cnt rq < 2 ^ 32 \<or> length (matching_rows rq (xs @ ys)) < 2 ^ 32"
  shows "(\<forall>s s1 k. num_rows s < select_limit_cnt rq \<and>
            read_switch engA rq s = Inr (HA_ERR_RECORD_DELETED, s1) \<longrightarrow>
            row_loop (Suc k) engA recA rq s = row_loop k engA recA rq s1 \<and>
            num_rows s1 = num_rows s \<and> sent s1 = sent s \<and>
            mode s1 = spec_next_mode (ha_rkey_mode rq) (mode s) \<and>
            (continues_scan s \<longrightarrow>
               calls (tfile s1) = calls (tfile s) @ [retry_prim (keyname rq) (mode s) (key s)] \<and>
               (\<forall>e2 s2. read_switch engA rq s1 = Inr (e2, s2) \<longrightarrow>
                  calls (tfile s2) =
                    calls (tfile s1) @ [retry_prim (keyname rq) (mode s) (key s)])) \<and>
            (\<not> continues_scan s \<and> (inited (tfile s1) \<noteq> NONE \<or> mode s1 = RNEXT_SAME) \<longrightarrow>
               (\<forall>e2 s2. read_switch engA rq s1 = Inr (e2, s2) \<longrightarrow>
                  calls (tfile s2) =
                    calls (tfile s1) @ [retry_prim (keyname rq) (mode s1) (key s1)])) \<and>
            (inited (tfile s1) = NONE \<and> mode s1 = RNEXT \<longrightarrow>
               read_switch engA rq s1 = Inr (do_rfirst engA rq s1)) \<and>
            (inited (tfile s1) = NONE \<and> mode s1 = RPREV \<longrightarrow>
               read_switch engA rq s1 = do_rlast engA rq s1)) \<and>
         (\<exists>sA' sB'.
            row_loop (Suc (length (xs @ (HA_ERR_RECORD_DELETED, r) # ys)) + n) engA recA rq sA =
              Some (None, sA') \<and>
            row_loop (Suc (length (xs @ ys)) + m) engB recB rq sB = Some (None, sB') \<and>
            sent sA' = sent sB' \<and>
            sent sA' = drop (offset_limit_cnt rq)
                         (take (select_limit_cnt rq) (matching_rows rq (xs @ ys))))"
proof -
  let ?D = "(HA_ERR_RECORD_DELETED, r)"
  have step: "\<forall>s s1 k. num_rows s < select_limit_cnt rq \<and>
            read_switch engA rq s = Inr (HA_ERR_RECORD_DELETED, s1) \<longrightarrow>
            row_loop (Suc k) engA recA rq s = row_loop k engA recA rq s1 \<and>
            num_rows s1 = num_rows s \<and> sent s1 = sent s \<and>
            mode s1 = spec_next_mode (ha_rkey_mode rq) (mode s) \<and>
            (continues_scan s \<longrightarrow>
               calls (tfile s1) = calls (tfile s) @ [retry_prim (keyname rq) (mode s) (key s)] \<and>
               (\<forall>e2 s2. read_switch engA rq s1 = Inr (e2, s2) \<longrightarrow>
                  calls (tfile s2) =
                    calls (tfile s1) @ [retry_prim (keyname rq) (mode s) (key s)])) \<and>
            (\<not> continues_scan s \<and> (inited (tfile s1) \<noteq> NONE \<or> mode s1 = RNEXT_SAME) \<longrightarrow>
               (\<forall>e2 s2. read_switch engA rq s1 = Inr (e2, s2) \<longrightarrow>
                  calls (tfile s2) =
                    calls (tfile s1) @ [retry_prim (keyname rq) (mode s1) (key s1)])) \<and>
            (inited (tfile s1) = NONE \<and> mode s1 = RNEXT \<longrightarrow>
               read_switch engA rq s1 = Inr (do_rfirst engA rq s1)) \<and>
            (inited (tfile s1) = NONE \<and> mode s1 = RPREV \<longrightarrow>
               read_switch engA rq s1 = do_rlast engA rq s1)"
  proof (intro allI impI, elim conjE)
    fix s s1 k
    assume lim: "num_rows s < select_limit_cnt rq"
      and sw: "read_switch engA rq s = Inr (HA_ERR_RECORD_DELETED, s1)"
    note a = row_loop_deleted [OF lim sw, of k recA]
    note b = read_switch_next_mode [OF sw]
    have c: "continues_scan s \<longrightarrow>
               calls (tfile s1) = calls (tfile s) @ [retry_prim (keyname rq) (mode s) (key s)] \<and>
               (\<forall>e2 s2. read_switch engA rq s1 = Inr (e2, s2) \<longrightarrow>
                  calls (tfile s2) =
                    calls (tfile s1) @ [retry_prim (keyname rq) (mode s) (key s)])"
      using read_switch_retry [OF sw] by blast
    have d: "\<not> continues_scan s \<and> (inited (tfile s1) \<noteq> NONE \<or> mode s1 = RNEXT_SAME) \<longrightarrow>
               (\<forall>e2 s2. read_switch engA rq s1 = Inr (e2, s2) \<longrightarrow>
                  calls (tfile s2) =
                    calls (tfile s1) @ [retry_prim (keyname rq) (mode s1) (key s1)])"
      using read_switch_continuation [OF sw] by blast
    have e: "inited (tfile s1) = NONE \<and> mode s1 = RNEXT \<longrightarrow>
               read_switch engA rq s1 = Inr (do_rfirst engA rq s1)"
      by simp
    have f: "inited (tfile s1) = NONE \<and> mode s1 = RPREV \<longrightarrow>
               read_switch engA rq s1 = do_rlast engA rq s1"
      by (simp add: do_rlast_def)
    from a b c d e f show "row_loop (Suc k) engA recA rq s = row_loop k engA recA rq s1 \<and>
            num_rows s1 = num_rows s \<and> sent s1 = sent s \<and>
            mode s1 = spec_next_mode (ha_rkey_mode rq) (mode s) \<and>
            (continues_scan s \<longrightarrow>
               calls (tfile s1) = calls (tfile s) @ [retry_prim (keyname rq) (mode s) (key s)] \<and>
               (\<forall>e2 s2. read_switch engA rq s1 = Inr (e2, s2) \<longrightarrow>
                  calls (tfile s2) =
                    calls (tfile s1) @ [retry_prim (keyname rq) (mode s) (key s)])) \<and>
            (\<not> continues_scan s \<and> (inited (tfile s1) \<noteq> NONE \<or> mode s1 = RNEXT_SAME) \<longrightarrow>
               (\<forall>e2 s2. read_switch engA rq s1 = Inr (e2, s2) \<longrightarrow>
                  calls (tfile s2) =
                    calls (tfile s1) @ [retry_prim (keyname rq) (mode s1) (key s1)])) \<and>
            (inited (tfile s1) = NONE \<and> mode s1 = RNEXT \<longrightarrow>
               read_switch engA rq s1 = Inr (do_rfirst engA rq s1)) \<and>
            (inited (tfile s1) = NONE \<and> mode s1 = RPREV \<longrightarrow>
               read_switch engA rq s1 = do_rlast engA rq s1)"
      by (elim conjE, intro conjI) assumption+
  qed
  have ms: "matching_rows rq (xs @ ?D # ys) = matching_rows rq (xs @ ys)"
    by (simp add: matching_rows_def HA_ERR_RECORD_DELETED_def)
  from assms(3) have okA: "\<forall>(e, r) \<in> set (xs @ ?D # ys). e = 0 \<or> e = HA_ERR_RECORD_DELETED"
    by auto
  from assms(7,11) ms have bA: "select_limit_cnt rq < 2 ^ 32 \<or>
      num_rows sA + length (matching_rows rq (xs @ ?D # ys)) < 2 ^ 32" by simp
  from assms(9,11) have bB: "select_limit_cnt rq < 2 ^ 32 \<or>
      num_rows sB + length (matching_rows rq (xs @ ys)) < 2 ^ 32" by simp
  from row_loop_emits [OF assms(1) okA assms(4) assms(6) bA, of n]
  obtain sA' where lA: "row_loop (Suc (length (xs @ ?D # ys)) + n) engA recA rq sA = Some (None, sA')"
    and stA: "sent sA' = sent sA @ drop (offset_limit_cnt rq - num_rows sA)
               (take (select_limit_cnt rq - num_rows sA) (matching_rows rq (xs @ ?D # ys)))"
    by blast
  from row_loop_emits [OF assms(2) assms(3) assms(5) assms(6) bB, of m]
  obtain sB' where lB: "row_loop (Suc (length (xs @ ys)) + m) engB recB rq sB = Some (None, sB')"
    and stB: "sent sB' = sent sB @ drop (offset_limit_cnt rq - num_rows sB)
               (take (select_limit_cnt rq - num_rows sB) (matching_rows rq (xs @ ys)))"
    by blast
  from stA ms assms(7,8) have eqA: "sent sA' =
      drop (offset_limit_cnt rq) (take (select_limit_cnt rq) (matching_rows rq (xs @ ys)))" by simp
  from stB assms(9,10) have eqB: "sent sB' =
      drop (offset_limit_cnt rq) (take (select_limit_cnt rq) (matching_rows rq (xs @ ys)))" by simp
  from lA lB eqA eqB have "\<exists>sA' sB'.
            row_loop (Suc (length (xs @ ?D # ys)) + n) engA recA rq sA = Some (None, sA') \<and>
            row_loop (Suc (length (xs @ ys)) + m) engB recB rq sB = Some (None, sB') \<and>
            sent sA' = sent sB' \<and>
            sent sA' = drop (offset_limit_cnt rq)
                         (take (select_limit_cnt rq) (matching_rows rq (xs @ ys)))"
    by auto
  with step show ?thesis by blast
qed




text \<open>
  The pass after a deleted record is made in the mode the switch has set, which need not
  issue the primitive that reported the deletion: \<^verbatim>\<open>index_first\<close> reports it here, and
  the loop goes on with \<^verbatim>\<open>index_next\<close>.
\<close>

theorem C5_record_deleted_counterexample:
  "read_switch script_engine (script_req 5 0) (script_scan RFIRST [(134, 10), (0, 20)]) =
     Inr (HA_ERR_RECORD_DELETED, cx5_first) \<and>
   calls (tfile cx5_first) = [P_INDEX_INIT 0, P_INDEX_FIRST] \<and>
   row_loop (Suc (Suc (Suc (Suc 0)))) script_engine fst (script_req 5 0)
     (script_scan RFIRST [(134, 10), (0, 20)]) = Some (None, cx5_final) \<and>
   calls (tfile cx5_final) = [P_INDEX_INIT 0, P_INDEX_FIRST, P_INDEX_NEXT, P_INDEX_NEXT] \<and>
   P_INDEX_NEXT \<noteq> P_INDEX_FIRST"
  by (simp add: script_defs cx5_final_def cx5_first_def)



text \<open>
  The theorem at the run of the counterexample: the first pass is a First, the pass after
  the deleted record is made in mode \<^verbatim>\<open>RNEXT\<close> and issues \<^verbatim>\<open>index_next\<close>, and the
  rows sent are those of the run without the deleted record.
\<close>

theorem C5_record_deleted_witness:
  "read_switch script_engine (script_req 5 0) (script_scan RFIRST [(134, 10), (0, 20)]) =
     Inr (HA_ERR_RECORD_DELETED, cx5_first) \<and>
   num_rows (script_scan RFIRST [(134, 10), (0, 20)]) < select_limit_cnt (script_req 5 0) \<and>
   row_loop (Suc (Suc (Suc (Suc 0)))) script_engine fst (script_req 5 0)
       (script_scan RFIRST [(134, 10), (0, 20)]) =
     row_loop (Suc (Suc (Suc 0))) script_engine fst (script_req 5 0) cx5_first \<and>
   mode cx5_first = RNEXT \<and>
   (\<exists>e2 s2. read_switch script_engine (script_req 5 0) cx5_first = Inr (e2, s2) \<and>
      calls (tfile s2) = [P_INDEX_INIT 0, P_INDEX_FIRST, P_INDEX_NEXT]) \<and>
   (\<exists>sA' sB'.
      row_loop (Suc (Suc (Suc 0))) script_engine fst (script_req 5 0)
        (script_scan RFIRST [(134, 10), (0, 20)]) = Some (None, sA') \<and>
      row_loop (Suc (Suc 0)) script_engine fst (script_req 5 0)
        (script_scan RFIRST [(0, 20)]) = Some (None, sB') \<and>
      sent sA' = sent sB' \<and> sent sA' = [20])"
proof -
  let ?rq = "script_req 5 0"
  let ?sA = "script_scan RFIRST [(134, 10), (0, 20)]"
  let ?sB = "script_scan RFIRST [(0, 20)]"
  have sw: "read_switch script_engine ?rq ?sA = Inr (HA_ERR_RECORD_DELETED, cx5_first)"
    by (simp add: script_defs cx5_first_def)
  have lim: "num_rows ?sA < select_limit_cnt ?rq" by (simp add: script_defs)
  have h1: "scan_fetches (Suc (length ([] @ (HA_ERR_RECORD_DELETED, 10) # [(0, 20 :: int)])))
              script_engine fst ?rq ?sA =
            ([] @ (HA_ERR_RECORD_DELETED, 10) # [(0, 20)]) @ [(HA_ERR_END_OF_FILE, 20)]"
    by (simp add: script_defs)
  have h2: "scan_fetches (Suc (length ([] @ [(0, 20 :: int)]))) script_engine fst ?rq ?sB =
            ([] @ [(0, 20)]) @ [(HA_ERR_END_OF_FILE, 20)]"
    by (simp add: script_defs)
  have h3: "\<forall>(e, r) \<in> set ([] @ [(0, 20 :: int)]). e = 0 \<or> e = HA_ERR_RECORD_DELETED" by simp
  have h4: "HA_ERR_END_OF_FILE = HA_ERR_KEY_NOT_FOUND \<or> HA_ERR_END_OF_FILE = HA_ERR_END_OF_FILE"
    by simp
  have h6: "\<forall>rows row. send_ok ?rq rows row" by (simp add: script_req_def)
  have h7: "num_rows ?sA = 0" and h8: "sent ?sA = []" and h9: "num_rows ?sB = 0"
    and h10: "sent ?sB = []" by (simp_all add: script_scan_def)
  have h11: "select_limit_cnt ?rq < 2 ^ 32 \<or>
      length (matching_rows ?rq ([] @ [(0, 20 :: int)])) < 2 ^ 32" by (simp add: script_req_def)
  have ms: "matching_rows ?rq [(0, 20)] = [20]" by (simp add: matching_rows_def script_defs)
  note inst = C5_record_deleted [OF h1 h2 h3 h4 h4 h6 h7 h8 h9 h10 h11, of 0 0]
  have nc: "\<not> continues_scan ?sA" and act: "inited (tfile cx5_first) \<noteq> NONE"
    by (simp_all add: continues_scan_def script_scan_def cx5_first_def)
  note st = inst [THEN conjunct1, rule_format, of ?sA cx5_first "Suc (Suc (Suc 0))",
      OF conjI [OF lim sw]]
  note step = st [THEN conjunct1]
  note m1 = st [THEN conjunct2, THEN conjunct2, THEN conjunct2, THEN conjunct1]
  note c1 = st [THEN conjunct2, THEN conjunct2, THEN conjunct2, THEN conjunct2, THEN conjunct2,
      THEN conjunct1]
  from m1 have md: "mode cx5_first = RNEXT" by (simp add: script_scan_def)
  from c1 nc act have nx0: "\<forall>e2 s2. read_switch script_engine ?rq cx5_first = Inr (e2, s2) \<longrightarrow>
      calls (tfile s2) = [P_INDEX_INIT 0, P_INDEX_FIRST, P_INDEX_NEXT]"
    by (simp add: cx5_first_def script_req_def del: read_switch.simps)
  have "\<exists>e2 s2. read_switch script_engine ?rq cx5_first = Inr (e2, s2)"
    by (simp add: script_defs cx5_first_def)
  with nx0 have nx: "\<exists>e2 s2. read_switch script_engine ?rq cx5_first = Inr (e2, s2) \<and>
      calls (tfile s2) = [P_INDEX_INIT 0, P_INDEX_FIRST, P_INDEX_NEXT]"
    by (elim exE) (intro exI conjI, assumption, simp del: read_switch.simps)
  from inst [THEN conjunct2] ms have runs: "\<exists>sA' sB'.
      row_loop (Suc (Suc (Suc 0))) script_engine fst ?rq ?sA = Some (None, sA') \<and>
      row_loop (Suc (Suc 0)) script_engine fst ?rq ?sB = Some (None, sB') \<and>
      sent sA' = sent sB' \<and> sent sA' = [20]"
    by (simp add: script_req_def del: row_loop.simps read_switch.simps)
  from sw lim step md nx runs show ?thesis by (intro conjI) assumption+
qed

section \<open>Properties of the handler manager\<close>

lemma merge_error:
  assumes "x_open_tables X (world thd) [] [] ht = (Open_error, w)"
  shows "ha_open_and_merge X bo bm ht (thd\<lparr>open_tables := [], mdl_context := []\<rparr>) =
     (Some ER_REPORTED,
      hash_write ht (thd\<lparr>world := w, trace := trace thd @ [Ev_open_tables (tl_alias ht) [] []],
         open_tables := bo, mdl_context := bm\<rparr>), ht)"
  using assms by (simp add: ha_open_and_merge_def Let_def)

lemma merge_one:
  assumes "x_open_tables X (world thd) [] [] ht = (Open_one b T, w)"
  shows "ha_open_and_merge X bo bm ht (thd\<lparr>open_tables := [], mdl_context := []\<rparr>) =
     (if b then Some ER_REPORTED else None,
      hash_write (ht\<lparr>tl_table := Some (next_table thd), mdl_request_ticket := mdl_ticket T\<rparr>)
        (thd\<lparr>world := w, trace := trace thd @ [Ev_open_tables (tl_alias ht) [] []],
           heap := (heap thd)(next_table thd := T\<lparr>in_use := True\<rparr>),
           next_table := Suc (next_table thd),
           handler_tables := next_table thd # handler_tables thd,
           handler_mdl_context := tickets_of [T] @ handler_mdl_context thd,
           open_tables := bo, mdl_context := bm\<rparr>),
      ht\<lparr>tl_table := Some (next_table thd), mdl_request_ticket := mdl_ticket T\<rparr>)"
  using assms by (simp add: ha_open_and_merge_def Let_def new_tables_def fun_eq_iff hash_write_def)

lemma merge_temporary:
  assumes "x_open_tables X (world thd) [] [] ht = (Open_temporary T, w)"
  shows "ha_open_and_merge X bo bm ht (thd\<lparr>open_tables := [], mdl_context := []\<rparr>) =
     (None,
      hash_write (ht\<lparr>tl_table := Some (next_table thd)\<rparr>)
        (thd\<lparr>world := w, trace := trace thd @ [Ev_open_tables (tl_alias ht) [] []],
           heap := (heap thd)(next_table thd := T\<lparr>in_use := True\<rparr>),
           next_table := Suc (next_table thd),
           open_tables := bo, mdl_context := bm\<rparr>),
      ht\<lparr>tl_table := Some (next_table thd)\<rparr>)"
  using assms by (simp add: ha_open_and_merge_def Let_def new_tables_def fun_eq_iff hash_write_def)

lemma multi_ids:
  "(x = n \<or> x = Suc n \<or> x \<in> (\<lambda>i. Suc (Suc (n + i))) ` {0..<k}) = (n \<le> x \<and> x < Suc (Suc (n + k)))"
proof
  assume "x = n \<or> x = Suc n \<or> x \<in> (\<lambda>i. Suc (Suc (n + i))) ` {0..<k}"
  then show "n \<le> x \<and> x < Suc (Suc (n + k))" by auto
next
  assume a: "n \<le> x \<and> x < Suc (Suc (n + k))"
  show "x = n \<or> x = Suc n \<or> x \<in> (\<lambda>i. Suc (Suc (n + i))) ` {0..<k}"
  proof (cases "x = n \<or> x = Suc n")
    case True then show ?thesis by blast
  next
    case False
    with a have "x = Suc (Suc (n + (x - Suc (Suc n))))" and "x - Suc (Suc n) < k" by arith+
    then have "x \<in> (\<lambda>i. Suc (Suc (n + i))) ` {0..<k}" by (intro image_eqI [where x = "x - Suc (Suc n)"]) simp_all
    then show ?thesis by blast
  qed
qed

lemma merge_multi:
  assumes "x_open_tables X (world thd) [] [] ht = (Open_multi T1 T2 Ts, w)"
  shows "ha_open_and_merge X bo bm ht (thd\<lparr>open_tables := [], mdl_context := []\<rparr>) =
     (Some ER_ILLEGAL_HA,
      hash_write (ht\<lparr>tl_table := Some (next_table thd)\<rparr>)
        (thd\<lparr>world := w,
           trace := trace thd @ [Ev_open_tables (tl_alias ht) [] [], Ev_close_thread_tables],
           heap := (\<lambda>x. if next_table thd \<le> x \<and> x < next_table thd + length (T1 # T2 # Ts)
                         then ((T1 # T2 # Ts) ! (x - next_table thd))\<lparr>in_use := False\<rparr>
                         else heap thd x),
           next_table := next_table thd + length (T1 # T2 # Ts),
           open_tables := bo, mdl_context := bm\<rparr>),
      ht\<lparr>tl_table := Some (next_table thd)\<rparr>)"
  using assms
  by (simp add: ha_open_and_merge_def Let_def new_tables_def hash_write_def close_thread_tables_def
        multi_ids cong: if_cong)


lemma hash_store_twice:
  "tl_alias a = tl_alias b \<Longrightarrow> hash_store a (hash_store b es) = hash_store a es"
  by (induction es) auto

lemma hash_store_twice_map:
  "tl_alias a = tl_alias b \<Longrightarrow>
     map_option (hash_store a) (map_option (hash_store b) h) = map_option (hash_store a) h"
  by (cases h) (simp_all add: hash_store_twice)

lemma release_tickets_of:
  "release_lock (mdl_ticket T) (tickets_of [T] @ ctx) = ctx"
  by (simp add: release_lock_def tickets_of_def split: option.splits)

lemmas ha_open_err_defs = ha_open_err_def mysql_ha_close_table_def close_thread_table_def
  hash_write_def my_hash_delete_def Let_def

lemma fun_upd_val_cong: "a = b \<Longrightarrow> f(x := a) = f(x := b)"
  by simp

lemma ha_open_body_error:
  assumes "tl_table ht = None" and "x_open_tables X (world thd) [] [] ht = (Open_error, w)"
  shows "ha_open_body X reopen ht thd =
     (Some ER_REPORTED,
      thd\<lparr>world := w, trace := trace thd @ [Ev_open_tables (tl_alias ht) [] []],
          handler_tables_hash :=
            map_option (\<lambda>es. if reopen then hash_store ht es
                              else hash_remove (tl_alias ht) (hash_store ht es))
              (handler_tables_hash thd)\<rparr>)"
  using assms
  by (simp add: ha_open_body_def merge_error [OF assms(2)] ha_open_err_defs hash_store_twice
        option.map_comp comp_def)

lemma ha_open_body_one_fail:
  assumes "tl_table ht = None" and "x_open_tables X (world thd) [] [] ht = (Open_one b T, w)"
    and "b \<or> \<not> can_sql_handler T"
  shows "ha_open_body X reopen ht thd =
     (Some (if b then ER_REPORTED else ER_ILLEGAL_HA),
      thd\<lparr>world := w,
          trace := trace thd @ [Ev_open_tables (tl_alias ht) [] [],
                                Ev_close_thread_table (next_table thd)],
          heap := (heap thd)(next_table thd :=
                    T\<lparr>in_use := False,
                      t_file := ha_index_or_rnd_end (x_engine X) (t_file T)\<rparr>),
          next_table := Suc (next_table thd),
          handler_tables_hash :=
            map_option (\<lambda>es. if reopen
                              then hash_store (ht\<lparr>tl_table := None, mdl_request_ticket := None\<rparr>) es
                              else hash_remove (tl_alias ht)
                                     (hash_store (ht\<lparr>tl_table := None, mdl_request_ticket := None\<rparr>) es))
              (handler_tables_hash thd)\<rparr>)"
  using assms
  by (auto simp: ha_open_body_def merge_one [OF assms(2)] ha_open_err_defs hash_store_twice
        option.map_comp comp_def release_tickets_of
      intro!: THD.equality fun_upd_val_cong TABLE.equality)


lemma ha_open_body_temporary_fail:
  assumes "tl_table ht = None" and "x_open_tables X (world thd) [] [] ht = (Open_temporary T, w)"
    and "\<not> can_sql_handler T" and "next_table thd \<notin> set (handler_tables thd)"
  shows "ha_open_body X reopen ht thd =
     (Some ER_ILLEGAL_HA,
      thd\<lparr>world := w,
          trace := trace thd @ [Ev_open_tables (tl_alias ht) [] []],
          heap := (heap thd)(next_table thd :=
                    T\<lparr>in_use := True,
                      t_file := ha_index_or_rnd_end (x_engine X) (t_file T),
                      query_id := thd_query_id thd, open_by_handler := False\<rparr>),
          next_table := Suc (next_table thd),
          handler_tables_hash :=
            map_option (\<lambda>es. if reopen
                              then hash_store (ht\<lparr>tl_table := None, mdl_request_ticket := None\<rparr>) es
                              else hash_remove (tl_alias ht)
                                     (hash_store (ht\<lparr>tl_table := None, mdl_request_ticket := None\<rparr>) es))
              (handler_tables_hash thd)\<rparr>)"
  using assms
  by (simp add: ha_open_body_def merge_temporary [OF assms(2)] ha_open_err_defs hash_store_twice
        option.map_comp comp_def cong: if_cong)

lemma ha_open_body_multi:
  assumes "tl_table ht = None" and "x_open_tables X (world thd) [] [] ht = (Open_multi T1 T2 Ts, w)"
    and "next_table thd \<notin> set (handler_tables thd)"
  shows "ha_open_body X reopen ht thd =
     (Some ER_ILLEGAL_HA,
      thd\<lparr>world := w,
          trace := trace thd @ [Ev_open_tables (tl_alias ht) [] [], Ev_close_thread_tables],
          heap := (\<lambda>x. if next_table thd \<le> x \<and> x < next_table thd + length (T1 # T2 # Ts)
                        then ((T1 # T2 # Ts) ! (x - next_table thd))\<lparr>in_use := False\<rparr>
                        else heap thd x)
                  (next_table thd :=
                    T1\<lparr>in_use := False,
                       t_file := ha_index_or_rnd_end (x_engine X) (t_file T1),
                       query_id := thd_query_id thd, open_by_handler := False\<rparr>),
          next_table := next_table thd + length (T1 # T2 # Ts),
          handler_tables_hash :=
            map_option (\<lambda>es. if reopen
                              then hash_store (ht\<lparr>tl_table := None, mdl_request_ticket := None\<rparr>) es
                              else hash_remove (tl_alias ht)
                                     (hash_store (ht\<lparr>tl_table := None, mdl_request_ticket := None\<rparr>) es))
              (handler_tables_hash thd)\<rparr>)"
  using assms
  by (simp add: ha_open_body_def merge_multi [OF assms(2)] ha_open_err_defs hash_store_twice
        option.map_comp comp_def cong: if_cong)

lemma ha_open_body_one_ok:
  assumes "tl_table ht = None" and "x_open_tables X (world thd) [] [] ht = (Open_one False T, w)"
    and "can_sql_handler T"
  shows "ha_open_body X reopen ht thd =
     (None,
      thd\<lparr>world := w,
          trace := trace thd @ [Ev_open_tables (tl_alias ht) [] []],
          heap := (heap thd)(next_table thd := T\<lparr>in_use := True, open_by_handler := True\<rparr>),
          next_table := Suc (next_table thd),
          handler_tables := next_table thd # handler_tables thd,
          handler_mdl_context := tickets_of [T] @ handler_mdl_context thd,
          handler_tables_hash :=
            map_option (hash_store (ht\<lparr>tl_table := Some (next_table thd),
                                        mdl_request_ticket := mdl_ticket T\<rparr>))
              (handler_tables_hash thd)\<rparr>)"
  using assms
  by (simp add: ha_open_body_def merge_one [OF assms(2)] hash_write_def cong: if_cong)

lemma ha_open_body_temporary_ok:
  assumes "tl_table ht = None" and "x_open_tables X (world thd) [] [] ht = (Open_temporary T, w)"
    and "can_sql_handler T"
  shows "ha_open_body X reopen ht thd =
     (None,
      thd\<lparr>world := w,
          trace := trace thd @ [Ev_open_tables (tl_alias ht) [] []],
          heap := (heap thd)(next_table thd := T\<lparr>in_use := True, open_by_handler := True\<rparr>),
          next_table := Suc (next_table thd),
          handler_tables_hash :=
            map_option (hash_store (ht\<lparr>tl_table := Some (next_table thd)\<rparr>))
              (handler_tables_hash thd)\<rparr>)"
  using assms
  by (simp add: ha_open_body_def merge_temporary [OF assms(2)] hash_write_def cong: if_cong)


lemma thd_frame_trans:
  "thd1 = thd\<lparr>world := w1, handler_tables_hash := h1\<rparr> \<Longrightarrow>
   thd2 = thd1\<lparr>world := w2, handler_tables_hash := h2\<rparr> \<Longrightarrow>
   thd2 = thd\<lparr>world := w2, handler_tables_hash := h2\<rparr>"
  by simp

lemma ha_open_body_assert:
  "tl_table ht \<noteq> None \<Longrightarrow> fst (ha_open_body X reopen ht thd) = Some EX_ASSERT"
  by (simp add: ha_open_body_def)

text \<open>
  A call of \<^verbatim>\<open>mysql_ha_open\<close> that returns either leaves before the save of the two
  lists, with an error and only the hash initialised or the allocator used, or runs the
  part after the save on the entry \<open>ht\<close> and the session \<open>thd2\<close>.
\<close>

lemma mysql_ha_open_cases:
  assumes op: "mysql_ha_open X tables reopen thd = (r, thd')" and ne: "r \<noteq> Some EX_ASSERT"
  shows "(r \<noteq> None \<and> hash_records thd' = hash_records thd \<and>
          thd' = thd\<lparr>world := world thd', handler_tables_hash := handler_tables_hash thd'\<rparr> \<and>
          (thd' = thd \<or> my_hash_search thd (tl_alias tables) = None)) \<or>
         (\<exists>thd2 ht. ha_open_body X reopen ht thd2 = (r, thd') \<and> tl_table ht = None \<and>
            tl_alias ht = tl_alias tables \<and>
            thd2 = thd\<lparr>world := world thd2, handler_tables_hash := handler_tables_hash thd2\<rparr> \<and>
            (reopen \<longrightarrow> ht = tables \<and> hash_records thd2 = hash_records thd) \<and>
            (\<not> reopen \<longrightarrow> my_hash_search thd (tl_alias tables) = None \<and>
               handler_tables_hash thd2 = Some (hash_records thd @ [ht])))"
proof (cases "locked_tables_mode thd \<or> schema_table tables")
  case True
  with op show ?thesis by (auto simp: mysql_ha_open_def split: if_splits)
next
  case nl: False
  show ?thesis
  proof (cases "ha_open_hash_check X tables reopen thd")
    case (Inl p)
    obtain e thd1 where p: "p = (e, thd1)" by (cases p)
    from op nl Inl p have r: "r = Some e" "thd' = thd1" by (simp_all add: mysql_ha_open_def)
    from Inl p have "hash_records thd1 = hash_records thd \<and>
        thd1 = thd\<lparr>world := world thd1, handler_tables_hash := handler_tables_hash thd1\<rparr> \<and>
        (thd1 = thd \<or> my_hash_search thd (tl_alias tables) = None)"
      by (auto simp: ha_open_hash_check_def Let_def hash_records_def my_hash_search_def
               split: if_splits prod.splits)
    with r show ?thesis by simp
  next
    case (Inr thd1)
    from Inr have k1: "hash_records thd1 = hash_records thd"
      "thd1 = thd\<lparr>world := world thd1, handler_tables_hash := handler_tables_hash thd1\<rparr>"
      "handler_tables_hash thd1 = Some (hash_records thd)"
      "\<not> reopen \<longrightarrow> my_hash_search thd (tl_alias tables) = None"
      by (auto simp: ha_open_hash_check_def Let_def hash_records_def my_hash_search_def
               split: if_splits prod.splits)
    show ?thesis
    proof (cases "ha_open_copy X tables reopen thd1")
      case (Inl p)
      obtain e thd2 where p: "p = (e, thd2)" by (cases p)
      from op nl Inr Inl p have r: "r = Some e" "thd' = thd2"
        by (simp_all add: mysql_ha_open_def)
      from Inl p have nr: "\<not> reopen" by (auto simp: ha_open_copy_def split: if_splits)
      from Inl p have "handler_tables_hash thd2 = handler_tables_hash thd1 \<and>
          thd2 = thd1\<lparr>world := world thd2\<rparr>"
        by (auto simp: ha_open_copy_def Let_def split: if_splits prod.splits)
      then have "hash_records thd2 = hash_records thd1 \<and>
          thd2 = thd1\<lparr>world := world thd2, handler_tables_hash := handler_tables_hash thd2\<rparr>"
        by (simp add: hash_records_def)
      with k1(1) thd_frame_trans [OF k1(2), where ?thd2.0 = thd2 and ?w2.0 = "world thd2"
          and ?h2.0 = "handler_tables_hash thd2"]
      have "hash_records thd2 = hash_records thd \<and>
          thd2 = thd\<lparr>world := world thd2, handler_tables_hash := handler_tables_hash thd2\<rparr>"
        by simp
      with r nr k1(4) show ?thesis by simp
    next
      case (Inr q)
      obtain thd2 ht where q: "q = (thd2, ht)" by (cases q)
      from op nl \<open>ha_open_hash_check X tables reopen thd = Inr thd1\<close> Inr q
      have body: "ha_open_body X reopen ht thd2 = (r, thd')" by (simp add: mysql_ha_open_def)
      have tn: "tl_table ht = None"
      proof (rule ccontr)
        assume "tl_table ht \<noteq> None"
        from ha_open_body_assert [OF this, of X reopen thd2] body ne show False by simp
      qed
      from Inr q have k2: "tl_alias ht = tl_alias tables"
        "thd2 = thd1\<lparr>world := world thd2, handler_tables_hash := handler_tables_hash thd2\<rparr>"
        "reopen \<longrightarrow> ht = tables \<and> thd2 = thd1"
        "\<not> reopen \<longrightarrow> handler_tables_hash thd2 = map_option (\<lambda>es. es @ [ht]) (handler_tables_hash thd1)"
        by (auto simp: ha_open_copy_def Let_def split: if_splits prod.splits)
      from thd_frame_trans [OF k1(2) k2(2)] have eq: "thd2 =
          thd\<lparr>world := world thd2, handler_tables_hash := handler_tables_hash thd2\<rparr>" .
      from k2(3) k1(1) have ro: "reopen \<longrightarrow> ht = tables \<and> hash_records thd2 = hash_records thd"
        by auto
      from k2(4) k1(3,4) have fo: "\<not> reopen \<longrightarrow> my_hash_search thd (tl_alias tables) = None \<and>
          handler_tables_hash thd2 = Some (hash_records thd @ [ht])" by simp
      from body tn k2(1) eq ro fo show ?thesis by blast
    qed
  qed
qed


lemma ha_open_body_fail:
  assumes body: "ha_open_body X reopen ht thd = (Some err, thd')" and tn: "tl_table ht = None"
    and fresh: "next_table thd \<notin> set (handler_tables thd)"
  shows "(\<exists>e'. tl_alias e' = tl_alias ht \<and> tl_table e' = None \<and>
           handler_tables_hash thd' =
             map_option (\<lambda>es. if reopen then hash_store e' es
                               else hash_remove (tl_alias ht) (hash_store e' es))
               (handler_tables_hash thd)) \<and> handler_tables thd' = handler_tables thd \<and>
        handler_mdl_context thd' = handler_mdl_context thd \<and>
        (\<forall>t < next_table thd. heap thd' t = heap thd t) \<and>
        ((next_table thd' = next_table thd \<and> heap thd' = heap thd \<and>
          trace thd' = trace thd @ [Ev_open_tables (tl_alias ht) [] []]) \<or>
         (next_table thd' = Suc (next_table thd) \<and> \<not> in_use (heap thd' (next_table thd)) \<and>
          trace thd' = trace thd @ [Ev_open_tables (tl_alias ht) [] [],
                                     Ev_close_thread_table (next_table thd)]) \<or>
         (next_table thd' = Suc (next_table thd) \<and>
          \<not> open_by_handler (heap thd' (next_table thd)) \<and>
          query_id (heap thd' (next_table thd)) = thd_query_id thd \<and>
          trace thd' = trace thd @ [Ev_open_tables (tl_alias ht) [] []]) \<or>
         (Suc (next_table thd) < next_table thd' \<and>
          (\<forall>t. next_table thd \<le> t \<and> t < next_table thd' \<longrightarrow> \<not> in_use (heap thd' t)) \<and>
          trace thd' = trace thd @ [Ev_open_tables (tl_alias ht) [] [], Ev_close_thread_tables]))"
proof -
  obtain outcome w where ot: "x_open_tables X (world thd) [] [] ht = (outcome, w)"
    by (cases "x_open_tables X (world thd) [] [] ht")
  let ?e = "ht\<lparr>tl_table := None, mdl_request_ticket := None\<rparr>"
  let ?H = "\<lambda>e'. tl_alias e' = tl_alias ht \<and> tl_table e' = None \<and>
           handler_tables_hash thd' =
             map_option (\<lambda>es. if reopen then hash_store e' es
                               else hash_remove (tl_alias ht) (hash_store e' es))
               (handler_tables_hash thd)"
  show ?thesis
  proof (cases outcome)
    case Open_error
    from body ha_open_body_error [OF tn ot [unfolded Open_error], of reopen]
    have eq: "thd' = thd\<lparr>world := w, trace := trace thd @ [Ev_open_tables (tl_alias ht) [] []],
          handler_tables_hash :=
            map_option (\<lambda>es. if reopen then hash_store ht es
                              else hash_remove (tl_alias ht) (hash_store ht es))
              (handler_tables_hash thd)\<rparr>" by simp
    from tn eq have "?H ht" by simp
    then have "\<exists>e'. ?H e'" ..
    with eq show ?thesis by simp
  next
    case (Open_one b T)
    show ?thesis
    proof (cases "b \<or> \<not> can_sql_handler T")
      case True
      from body ha_open_body_one_fail [OF tn ot [unfolded Open_one] True, of reopen]
      have eq: "thd' = thd\<lparr>world := w,
          trace := trace thd @ [Ev_open_tables (tl_alias ht) [] [],
                                Ev_close_thread_table (next_table thd)],
          heap := (heap thd)(next_table thd :=
                    T\<lparr>in_use := False,
                      t_file := ha_index_or_rnd_end (x_engine X) (t_file T)\<rparr>),
          next_table := Suc (next_table thd),
          handler_tables_hash :=
            map_option (\<lambda>es. if reopen then hash_store ?e es
                              else hash_remove (tl_alias ht) (hash_store ?e es))
              (handler_tables_hash thd)\<rparr>" by simp
      from eq have "?H ?e" by simp
      then have "\<exists>e'. ?H e'" ..
      with eq show ?thesis by simp
    next
      case False
      then have "\<not> b" "can_sql_handler T" by simp_all
      with body ha_open_body_one_ok [OF tn, of X thd T w reopen] ot Open_one
      show ?thesis by simp
    qed
  next
    case (Open_temporary T)
    show ?thesis
    proof (cases "can_sql_handler T")
      case True
      with body ha_open_body_temporary_ok [OF tn ot [unfolded Open_temporary] True, of reopen]
      show ?thesis by simp
    next
      case False
      from body ha_open_body_temporary_fail [OF tn ot [unfolded Open_temporary] False fresh, of reopen]
      have eq: "thd' = thd\<lparr>world := w,
          trace := trace thd @ [Ev_open_tables (tl_alias ht) [] []],
          heap := (heap thd)(next_table thd :=
                    T\<lparr>in_use := True,
                      t_file := ha_index_or_rnd_end (x_engine X) (t_file T),
                      query_id := thd_query_id thd, open_by_handler := False\<rparr>),
          next_table := Suc (next_table thd),
          handler_tables_hash :=
            map_option (\<lambda>es. if reopen then hash_store ?e es
                              else hash_remove (tl_alias ht) (hash_store ?e es))
              (handler_tables_hash thd)\<rparr>" by simp
      from eq have "?H ?e" by simp
      then have "\<exists>e'. ?H e'" ..
      with eq show ?thesis by simp
    qed
  next
    case (Open_multi T1 T2 Ts)
    from body ha_open_body_multi [OF tn ot [unfolded Open_multi] fresh, of reopen]
    have eq: "thd' = thd\<lparr>world := w,
          trace := trace thd @ [Ev_open_tables (tl_alias ht) [] [], Ev_close_thread_tables],
          heap := (\<lambda>x. if next_table thd \<le> x \<and> x < next_table thd + length (T1 # T2 # Ts)
                        then ((T1 # T2 # Ts) ! (x - next_table thd))\<lparr>in_use := False\<rparr>
                        else heap thd x)
                  (next_table thd :=
                    T1\<lparr>in_use := False,
                       t_file := ha_index_or_rnd_end (x_engine X) (t_file T1),
                       query_id := thd_query_id thd, open_by_handler := False\<rparr>),
          next_table := next_table thd + length (T1 # T2 # Ts),
          handler_tables_hash :=
            map_option (\<lambda>es. if reopen then hash_store ?e es
                              else hash_remove (tl_alias ht) (hash_store ?e es))
              (handler_tables_hash thd)\<rparr>" by simp
    from eq have "?H ?e" by simp
    then have "\<exists>e'. ?H e'" ..
    with eq show ?thesis by simp
  qed
qed


lemma ha_open_err_ctx:
  assumes "ha_open_err X reopen ht1 e thd5 = (r, thd')"
  shows "open_tables thd' = open_tables thd5 \<and> mdl_context thd' = mdl_context thd5 \<and>
         (trace thd' = trace thd5 \<or> (\<exists>t. trace thd' = trace thd5 @ [Ev_close_thread_table t]))"
  using assms
  by (auto simp: ha_open_err_defs split: if_splits option.splits)

lemma ha_open_body_err_step:
  assumes tn: "tl_table ht = None"
    and ot: "x_open_tables X (world thd) [] [] ht = (outcome, w)"
    and oc: "(\<exists>T. outcome = Open_temporary T \<and> \<not> can_sql_handler T) \<or>
             (\<exists>T1 T2 Ts. outcome = Open_multi T1 T2 Ts)"
  shows "\<exists>thd5 ht1. ha_open_body X reopen ht thd = ha_open_err X reopen ht1 ER_ILLEGAL_HA thd5 \<and>
           open_tables thd5 = open_tables thd \<and> mdl_context thd5 = mdl_context thd \<and>
           (trace thd5 = trace thd @ [Ev_open_tables (tl_alias ht) [] []] \<or>
            trace thd5 = trace thd @ [Ev_open_tables (tl_alias ht) [] [], Ev_close_thread_tables])"
proof -
  from oc consider (t) T where "outcome = Open_temporary T" "\<not> can_sql_handler T"
    | (m) T1 T2 Ts where "outcome = Open_multi T1 T2 Ts" by blast
  then show ?thesis
  proof cases
    case t
    let ?ht1 = "ht\<lparr>tl_table := Some (next_table thd)\<rparr>"
    let ?thd5 = "hash_write ?ht1
        (thd\<lparr>world := w, trace := trace thd @ [Ev_open_tables (tl_alias ht) [] []],
           heap := (heap thd)(next_table thd := T\<lparr>in_use := True\<rparr>),
           next_table := Suc (next_table thd),
           open_tables := open_tables thd, mdl_context := mdl_context thd\<rparr>)"
    from tn t have "ha_open_body X reopen ht thd = ha_open_err X reopen ?ht1 ER_ILLEGAL_HA ?thd5"
      by (simp add: ha_open_body_def merge_temporary [OF ot [unfolded t(1)]] hash_write_def)
    moreover have "open_tables ?thd5 = open_tables thd \<and> mdl_context ?thd5 = mdl_context thd \<and>
        trace ?thd5 = trace thd @ [Ev_open_tables (tl_alias ht) [] []]"
      by (simp add: hash_write_def)
    ultimately show ?thesis by blast
  next
    case m
    let ?ht1 = "ht\<lparr>tl_table := Some (next_table thd)\<rparr>"
    let ?thd5 = "hash_write ?ht1
        (thd\<lparr>world := w,
           trace := trace thd @ [Ev_open_tables (tl_alias ht) [] [], Ev_close_thread_tables],
           heap := (\<lambda>x. if next_table thd \<le> x \<and> x < next_table thd + length (T1 # T2 # Ts)
                         then ((T1 # T2 # Ts) ! (x - next_table thd))\<lparr>in_use := False\<rparr>
                         else heap thd x),
           next_table := next_table thd + length (T1 # T2 # Ts),
           open_tables := open_tables thd, mdl_context := mdl_context thd\<rparr>)"
    from tn have "ha_open_body X reopen ht thd = ha_open_err X reopen ?ht1 ER_ILLEGAL_HA ?thd5"
      by (simp add: ha_open_body_def merge_multi [OF ot [unfolded m]])
    moreover have "open_tables ?thd5 = open_tables thd \<and> mdl_context ?thd5 = mdl_context thd \<and>
        trace ?thd5 = trace thd @ [Ev_open_tables (tl_alias ht) [] [], Ev_close_thread_tables]"
      by (simp add: hash_write_def)
    ultimately show ?thesis by blast
  qed
qed


lemma ha_open_body_ctx:
  assumes body: "ha_open_body X reopen ht thd = (r, thd')" and tn: "tl_table ht = None"
  shows "open_tables thd' = open_tables thd \<and> mdl_context thd' = mdl_context thd \<and>
         (\<exists>rest. trace thd' = trace thd @ Ev_open_tables (tl_alias ht) [] [] # rest \<and>
            (\<forall>a ts ks. Ev_open_tables a ts ks \<notin> set rest))"
proof -
  obtain outcome w where ot: "x_open_tables X (world thd) [] [] ht = (outcome, w)"
    by (cases "x_open_tables X (world thd) [] [] ht")
  have via_err: ?thesis
    if oc: "(\<exists>T. outcome = Open_temporary T \<and> \<not> can_sql_handler T) \<or>
            (\<exists>T1 T2 Ts. outcome = Open_multi T1 T2 Ts)"
  proof -
    from ha_open_body_err_step [OF tn ot oc, of reopen] body obtain thd5 ht1 where
      e: "ha_open_err X reopen ht1 ER_ILLEGAL_HA thd5 = (r, thd')"
      and o: "open_tables thd5 = open_tables thd" and c: "mdl_context thd5 = mdl_context thd"
      and t: "trace thd5 = trace thd @ [Ev_open_tables (tl_alias ht) [] []] \<or>
              trace thd5 = trace thd @ [Ev_open_tables (tl_alias ht) [] [], Ev_close_thread_tables]"
      by auto
    from ha_open_err_ctx [OF e] have o': "open_tables thd' = open_tables thd5"
      and c': "mdl_context thd' = mdl_context thd5"
      and t': "trace thd' = trace thd5 \<or> (\<exists>t. trace thd' = trace thd5 @ [Ev_close_thread_table t])"
      by simp_all
    from t t' have "\<exists>rest. trace thd' = trace thd @ Ev_open_tables (tl_alias ht) [] [] # rest \<and>
            (\<forall>a ts ks. Ev_open_tables a ts ks \<notin> set rest)"
      by (auto simp: append_eq_append_conv2)
    with o o' c c' show ?thesis by simp
  qed
  show ?thesis
  proof (cases outcome)
    case Open_error
    from body ha_open_body_error [OF tn ot [unfolded Open_error], of reopen]
    show ?thesis by auto
  next
    case (Open_one b T)
    show ?thesis
    proof (cases "b \<or> \<not> can_sql_handler T")
      case True
      from body ha_open_body_one_fail [OF tn ot [unfolded Open_one] True, of reopen]
      show ?thesis by auto
    next
      case False
      then have "\<not> b" "can_sql_handler T" by simp_all
      with body ha_open_body_one_ok [OF tn, of X thd T w reopen] ot Open_one
      show ?thesis by auto
    qed
  next
    case (Open_temporary T)
    show ?thesis
    proof (cases "can_sql_handler T")
      case True
      from body ha_open_body_temporary_ok [OF tn ot [unfolded Open_temporary] True, of reopen]
      show ?thesis by auto
    next
      case False
      with Open_temporary show ?thesis by (intro via_err) simp
    qed
  next
    case (Open_multi T1 T2 Ts)
    then show ?thesis by (intro via_err) simp
  qed
qed

lemma ha_open_body_ok:
  assumes body: "ha_open_body X reopen ht thd = (None, thd')" and tn: "tl_table ht = None"
  shows "trace thd' = trace thd @ [Ev_open_tables (tl_alias ht) [] []] \<and>
         next_table thd' = Suc (next_table thd) \<and>
         in_use (heap thd' (next_table thd)) \<and> open_by_handler (heap thd' (next_table thd)) \<and>
         (\<forall>t. t \<noteq> next_table thd \<longrightarrow> heap thd' t = heap thd t) \<and>
         ((handler_tables thd' = next_table thd # handler_tables thd \<and>
           handler_mdl_context thd' =
             tickets_of [heap thd' (next_table thd)] @ handler_mdl_context thd) \<or>
          (handler_tables thd' = handler_tables thd \<and>
           handler_mdl_context thd' = handler_mdl_context thd)) \<and>
         locked_tables_mode thd' = locked_tables_mode thd \<and>
         (\<exists>ht1. tl_alias ht1 = tl_alias ht \<and> tl_table ht1 = Some (next_table thd) \<and>
            handler_tables_hash thd' = map_option (hash_store ht1) (handler_tables_hash thd))"
proof -
  obtain outcome w where ot: "x_open_tables X (world thd) [] [] ht = (outcome, w)"
    by (cases "x_open_tables X (world thd) [] [] ht")
  have via_err: False
    if oc: "(\<exists>T. outcome = Open_temporary T \<and> \<not> can_sql_handler T) \<or>
            (\<exists>T1 T2 Ts. outcome = Open_multi T1 T2 Ts)"
  proof -
    from ha_open_body_err_step [OF tn ot oc, of reopen] body obtain thd5 ht1 where
      "ha_open_err X reopen ht1 ER_ILLEGAL_HA thd5 = (None, thd')" by auto
    then show False by (simp add: ha_open_err_def Let_def split: prod.splits)
  qed
  show ?thesis
  proof (cases outcome)
    case Open_error
    from body ha_open_body_error [OF tn ot [unfolded Open_error], of reopen]
    show ?thesis by simp
  next
    case (Open_one b T)
    show ?thesis
    proof (cases "b \<or> \<not> can_sql_handler T")
      case True
      from body ha_open_body_one_fail [OF tn ot [unfolded Open_one] True, of reopen]
      show ?thesis by simp
    next
      case False
      then have nb: "\<not> b" and cs: "can_sql_handler T" by simp_all
      let ?ht1 = "ht\<lparr>tl_table := Some (next_table thd), mdl_request_ticket := mdl_ticket T\<rparr>"
      from nb body ha_open_body_one_ok [OF tn, of X thd T w reopen] ot Open_one cs
      have eq: "thd' = thd\<lparr>world := w,
          trace := trace thd @ [Ev_open_tables (tl_alias ht) [] []],
          heap := (heap thd)(next_table thd := T\<lparr>in_use := True, open_by_handler := True\<rparr>),
          next_table := Suc (next_table thd),
          handler_tables := next_table thd # handler_tables thd,
          handler_mdl_context := tickets_of [T] @ handler_mdl_context thd,
          handler_tables_hash := map_option (hash_store ?ht1) (handler_tables_hash thd)\<rparr>"
        by simp
      have "tl_alias ?ht1 = tl_alias ht \<and> tl_table ?ht1 = Some (next_table thd) \<and>
          handler_tables_hash thd' = map_option (hash_store ?ht1) (handler_tables_hash thd)"
        using eq by simp
      then have "\<exists>ht1. tl_alias ht1 = tl_alias ht \<and> tl_table ht1 = Some (next_table thd) \<and>
          handler_tables_hash thd' = map_option (hash_store ht1) (handler_tables_hash thd)" ..
      with eq show ?thesis by (simp add: tickets_of_def)
    qed
  next
    case (Open_temporary T)
    show ?thesis
    proof (cases "can_sql_handler T")
      case True
      let ?ht1 = "ht\<lparr>tl_table := Some (next_table thd)\<rparr>"
      from body ha_open_body_temporary_ok [OF tn ot [unfolded Open_temporary] True, of reopen]
      have eq: "thd' = thd\<lparr>world := w,
          trace := trace thd @ [Ev_open_tables (tl_alias ht) [] []],
          heap := (heap thd)(next_table thd := T\<lparr>in_use := True, open_by_handler := True\<rparr>),
          next_table := Suc (next_table thd),
          handler_tables_hash := map_option (hash_store ?ht1) (handler_tables_hash thd)\<rparr>"
        by simp
      have "tl_alias ?ht1 = tl_alias ht \<and> tl_table ?ht1 = Some (next_table thd) \<and>
          handler_tables_hash thd' = map_option (hash_store ?ht1) (handler_tables_hash thd)"
        using eq by simp
      then have "\<exists>ht1. tl_alias ht1 = tl_alias ht \<and> tl_table ht1 = Some (next_table thd) \<and>
          handler_tables_hash thd' = map_option (hash_store ht1) (handler_tables_hash thd)" ..
      with eq show ?thesis by simp
    next
      case False
      with Open_temporary via_err show ?thesis by simp
    qed
  next
    case (Open_multi T1 T2 Ts)
    with via_err show ?thesis by simp
  qed
qed

subsection \<open>The ambient context across an open\<close>

lemma thd_frame_fields:
  assumes "thd2 = thd\<lparr>world := w, handler_tables_hash := h\<rparr>"
  shows "open_tables thd2 = open_tables thd" "mdl_context thd2 = mdl_context thd"
    "handler_tables thd2 = handler_tables thd"
    "handler_mdl_context thd2 = handler_mdl_context thd"
    "heap thd2 = heap thd" "next_table thd2 = next_table thd" "trace thd2 = trace thd"
    "locked_tables_mode thd2 = locked_tables_mode thd"
    "some_tables_deleted thd2 = some_tables_deleted thd" "thd_query_id thd2 = thd_query_id thd"
  using assms by simp_all

text \<open>
  C8. Every call of \<^verbatim>\<open>mysql_ha_open\<close> that returns, with or without an error, leaves
  \<^verbatim>\<open>thd->open_tables\<close> and \<^verbatim>\<open>thd->mdl_context\<close> as they were at entry. Either
  \<^verbatim>\<open>open_tables\<close> is not called at all, or it is called once, and then it sees both lists
  empty: the ambient context has been saved and an empty one installed before the call
  (the history records the call with the two lists as they are at that moment). After a
  successful open the table opened is in use and marked \<^verbatim>\<open>open_by_handler\<close>; a base table
  has been linked at the head of \<^verbatim>\<open>thd->handler_tables\<close> and its ticket put in front of
  \<^verbatim>\<open>thd->handler_mdl_context\<close>, a temporary table leaves both as they were. The
  ambient lists receive neither the table nor the ticket. (A failed \<^verbatim>\<open>DBUG_ASSERT\<close>
  does not return.)
\<close>

theorem C8_open_restores_context:
  assumes "mysql_ha_open X tables reopen thd = (r, thd')" and "r \<noteq> Some EX_ASSERT"
  shows "open_tables thd' = open_tables thd \<and> mdl_context thd' = mdl_context thd \<and>
         (trace thd' = trace thd \<or>
          (\<exists>rest. trace thd' = trace thd @ Ev_open_tables (tl_alias tables) [] [] # rest \<and>
             (\<forall>a ts ks. Ev_open_tables a ts ks \<notin> set rest))) \<and>
         (r = None \<longrightarrow>
            trace thd' = trace thd @ [Ev_open_tables (tl_alias tables) [] []] \<and>
            next_table thd' = Suc (next_table thd) \<and>
            in_use (heap thd' (next_table thd)) \<and> open_by_handler (heap thd' (next_table thd)) \<and>
            ((handler_tables thd' = next_table thd # handler_tables thd \<and>
              handler_mdl_context thd' =
                tickets_of [heap thd' (next_table thd)] @ handler_mdl_context thd) \<or>
             (handler_tables thd' = handler_tables thd \<and>
              handler_mdl_context thd' = handler_mdl_context thd)) \<and>
            (\<exists>ks. handler_mdl_context thd' = ks @ handler_mdl_context thd))"
proof -
  from mysql_ha_open_cases [OF assms] consider
      (early) "r \<noteq> None"
        "thd' = thd\<lparr>world := world thd', handler_tables_hash := handler_tables_hash thd'\<rparr>"
    | (body) thd2 ht where "ha_open_body X reopen ht thd2 = (r, thd')" "tl_table ht = None"
        "tl_alias ht = tl_alias tables"
        "thd2 = thd\<lparr>world := world thd2, handler_tables_hash := handler_tables_hash thd2\<rparr>"
    by blast
  then show ?thesis
  proof cases
    case early
    note f = thd_frame_fields [OF early(2)]
    from early(1) f(1,2,7) show ?thesis by simp
  next
    case body
    note f = thd_frame_fields [OF body(4)]
    from ha_open_body_ctx [OF body(1,2)] body(3) f(1,2,7)
    have ctx: "open_tables thd' = open_tables thd \<and> mdl_context thd' = mdl_context thd \<and>
         (\<exists>rest. trace thd' = trace thd @ Ev_open_tables (tl_alias tables) [] [] # rest \<and>
            (\<forall>a ts ks. Ev_open_tables a ts ks \<notin> set rest))"
      by simp
    have ok: "trace thd' = trace thd @ [Ev_open_tables (tl_alias tables) [] []] \<and>
            next_table thd' = Suc (next_table thd) \<and>
            in_use (heap thd' (next_table thd)) \<and> open_by_handler (heap thd' (next_table thd)) \<and>
            ((handler_tables thd' = next_table thd # handler_tables thd \<and>
              handler_mdl_context thd' =
                tickets_of [heap thd' (next_table thd)] @ handler_mdl_context thd) \<or>
             (handler_tables thd' = handler_tables thd \<and>
              handler_mdl_context thd' = handler_mdl_context thd)) \<and>
            (\<exists>ks. handler_mdl_context thd' = ks @ handler_mdl_context thd)" if "r = None"
    proof -
      from body(1) that have b: "ha_open_body X reopen ht thd2 = (None, thd')" by simp
      from ha_open_body_ok [OF b body(2)] body(3) f(3,4,6,7)
      have k: "trace thd' = trace thd @ [Ev_open_tables (tl_alias tables) [] []]"
        "next_table thd' = Suc (next_table thd)"
        "in_use (heap thd' (next_table thd))" "open_by_handler (heap thd' (next_table thd))"
        "(handler_tables thd' = next_table thd # handler_tables thd \<and>
              handler_mdl_context thd' =
                tickets_of [heap thd' (next_table thd)] @ handler_mdl_context thd) \<or>
             (handler_tables thd' = handler_tables thd \<and>
              handler_mdl_context thd' = handler_mdl_context thd)"
        by simp_all
      from k(5) have "\<exists>ks. handler_mdl_context thd' = ks @ handler_mdl_context thd"
        by (metis append_Nil)
      with k show ?thesis by simp
    qed
    from ctx ok show ?thesis by blast
  qed
qed

text \<open>
  C10. In locked-tables mode \<^verbatim>\<open>mysql_ha_open\<close>, \<^verbatim>\<open>mysql_ha_close\<close> and
  \<^verbatim>\<open>mysql_ha_read\<close> all fail with \<^verbatim>\<open>ER_LOCK_OR_ACTIVE_TRANSACTION\<close> at once and leave
  the whole session, the hash and its entries included, as it was.
\<close>

theorem C10_locked_tables_mode:
  assumes "locked_tables_mode thd"
  shows "mysql_ha_open X tables reopen thd = (Some ER_LOCK_OR_ACTIVE_TRANSACTION, thd) \<and>
         mysql_ha_close X tables thd = (Some ER_LOCK_OR_ACTIVE_TRANSACTION, thd) \<and>
         mysql_ha_read retries X fuel rq thd = Some (Some ER_LOCK_OR_ACTIVE_TRANSACTION, [], thd)"
  using assms by (simp add: mysql_ha_open_def mysql_ha_close_def mysql_ha_read_def)

lemmas demo_session_defs = demo_X_def demo_tables_def demo_thd_def demo_TABLE_def demo_read_def
  mysql_ha_open_def ha_open_hash_check_def ha_open_copy_def ha_open_body_def
  ha_open_and_merge_def ha_open_err_def
  mysql_ha_close_table_def mysql_ha_close_def hash_write_def my_hash_delete_def
  my_hash_search_def hash_records_def new_tables_def tickets_of_def release_lock_def
  close_thread_tables_def close_thread_table_def

theorem C8_open_restores_context_witness:
  "fst (mysql_ha_open demo_X (demo_tables ''h1'') False
          ((demo_thd 0)\<lparr>open_tables := [7], mdl_context := [9]\<rparr>)) = None \<and>
   open_tables (snd (mysql_ha_open demo_X (demo_tables ''h1'') False
          ((demo_thd 0)\<lparr>open_tables := [7], mdl_context := [9]\<rparr>))) = [7] \<and>
   mdl_context (snd (mysql_ha_open demo_X (demo_tables ''h1'') False
          ((demo_thd 0)\<lparr>open_tables := [7], mdl_context := [9]\<rparr>))) = [9] \<and>
   trace (snd (mysql_ha_open demo_X (demo_tables ''h1'') False
          ((demo_thd 0)\<lparr>open_tables := [7], mdl_context := [9]\<rparr>))) =
     [Ev_open_tables ''h1'' [] []] \<and>
   handler_tables (snd (mysql_ha_open demo_X (demo_tables ''h1'') False
          ((demo_thd 0)\<lparr>open_tables := [7], mdl_context := [9]\<rparr>))) = [0] \<and>
   handler_mdl_context (snd (mysql_ha_open demo_X (demo_tables ''h1'') False
          ((demo_thd 0)\<lparr>open_tables := [7], mdl_context := [9]\<rparr>))) = [5]"
proof -
  let ?thd = "(demo_thd 0)\<lparr>open_tables := [7], mdl_context := [9]\<rparr>"
  let ?res = "mysql_ha_open demo_X (demo_tables ''h1'') False ?thd"
  have ok: "fst ?res = None" by (simp add: demo_session_defs Let_def)
  have hm: "handler_mdl_context (snd ?res) = [5]" by (simp add: demo_session_defs Let_def)
  have ht: "handler_tables (snd ?res) = [0]" by (simp add: demo_session_defs Let_def)
  have h1: "?res = (fst ?res, snd ?res)" by simp
  have h2: "fst ?res \<noteq> Some EX_ASSERT" using ok by simp
  from C8_open_restores_context [OF h1 h2] ok hm ht show ?thesis
    by (simp add: demo_thd_def demo_tables_def)
qed

theorem C10_locked_tables_mode_witness:
  "locked_tables_mode ((demo_thd 0)\<lparr>locked_tables_mode := True\<rparr>) \<and>
   mysql_ha_open demo_X (demo_tables ''h1'') False ((demo_thd 0)\<lparr>locked_tables_mode := True\<rparr>) =
     (Some ER_LOCK_OR_ACTIVE_TRANSACTION, (demo_thd 0)\<lparr>locked_tables_mode := True\<rparr>) \<and>
   mysql_ha_close demo_X (demo_tables ''h1'') ((demo_thd 0)\<lparr>locked_tables_mode := True\<rparr>) =
     (Some ER_LOCK_OR_ACTIVE_TRANSACTION, (demo_thd 0)\<lparr>locked_tables_mode := True\<rparr>) \<and>
   mysql_ha_read 1 demo_X 1 demo_read ((demo_thd 0)\<lparr>locked_tables_mode := True\<rparr>) =
     Some (Some ER_LOCK_OR_ACTIVE_TRANSACTION, [], (demo_thd 0)\<lparr>locked_tables_mode := True\<rparr>)"
proof -
  have h: "locked_tables_mode ((demo_thd 0)\<lparr>locked_tables_mode := True\<rparr>)" by simp
  from C10_locked_tables_mode [OF h, of demo_X "demo_tables ''h1''" False 1 1 demo_read] h
  show ?thesis by simp
qed

subsection \<open>A failed open\<close>

lemma hash_store_fresh:
  "\<forall>e \<in> set es. tl_alias e \<noteq> tl_alias e' \<Longrightarrow> tl_alias e0 = tl_alias e' \<Longrightarrow>
     hash_store e' (es @ [e0]) = es @ [e']"
  by (induction es) auto

lemma hash_remove_fresh:
  "\<forall>e \<in> set es. tl_alias e \<noteq> a \<Longrightarrow> tl_alias e' = a \<Longrightarrow> hash_remove a (es @ [e']) = es"
  by (induction es) auto

lemma my_hash_search_None:
  "my_hash_search thd a = None \<longleftrightarrow> (\<forall>e \<in> set (hash_records thd). tl_alias e \<noteq> a)"
  by (auto simp: my_hash_search_def find_None_iff)

lemma find_hash_store:
  "find (\<lambda>e. tl_alias e = a) es = Some e0 \<Longrightarrow> tl_alias e' = a \<Longrightarrow>
     find (\<lambda>e. tl_alias e = a) (hash_store e' es) = Some e'"
  by (induction es) (auto split: if_splits)

lemma hash_store_aliases:
  "map tl_alias (hash_store e' es) = map tl_alias es"
  by (induction es) auto

lemma my_hash_search_records:
  "hash_records thd' = hash_records thd \<Longrightarrow> my_hash_search thd' a = my_hash_search thd a"
  by (simp add: my_hash_search_def)

lemma first_open_refused:
  assumes "mysql_ha_open X tables False thd = (Some err, thd')"
    and "err \<noteq> ER_NONUNIQ_TABLE" and "err \<noteq> ER_LOCK_OR_ACTIVE_TRANSACTION"
    and "err \<noteq> ER_WRONG_USAGE"
  shows "my_hash_search thd (tl_alias tables) = None"
proof (rule ccontr)
  assume "my_hash_search thd (tl_alias tables) \<noteq> None"
  then have "handler_tables_hash thd \<noteq> None"
    by (cases "handler_tables_hash thd") (auto simp: my_hash_search_def hash_records_def)
  with \<open>my_hash_search thd (tl_alias tables) \<noteq> None\<close>
  have "locked_tables_mode thd \<or> schema_table tables \<or>
      ha_open_hash_check X tables False thd = Inl (ER_NONUNIQ_TABLE, thd)"
    by (auto simp: ha_open_hash_check_def)
  with assms show False by (auto simp: mysql_ha_open_def split: if_splits)
qed

text \<open>
  C7. A call of \<^verbatim>\<open>mysql_ha_open\<close> that returns an error has closed what it opened.
  \<^verbatim>\<open>thd->handler_tables\<close>, \<^verbatim>\<open>thd->handler_mdl_context\<close> and the two ambient lists are as
  at entry, and so is every \<^verbatim>\<open>TABLE\<close> that existed at entry. Of the objects of this call,
  one of four holds: nothing was opened; one base table was opened and
  \<^verbatim>\<open>close_thread_table\<close> has given it back (it is no longer in use); one temporary table
  was opened and is no longer marked \<^verbatim>\<open>open_by_handler\<close>; or \<^verbatim>\<open>open_tables\<close> opened more
  than one table for the name and \<^verbatim>\<open>close_thread_tables\<close> has given all of them back. The
  history shows the call of \<^verbatim>\<open>open_tables\<close> followed by that close. This covers the case
  of an engine without \<^verbatim>\<open>HA_CAN_SQL_HANDLER\<close>, which is the second or the third.

  On a first open the hash holds exactly the entries it held at entry, so the entry made
  by this call is not retained; the alias is in the hash afterwards only if the call was
  refused before anything was done (the session is unchanged), which can only be with
  \<^verbatim>\<open>ER_NONUNIQ_TABLE\<close>, \<^verbatim>\<open>ER_LOCK_OR_ACTIVE_TRANSACTION\<close> or \<^verbatim>\<open>ER_WRONG_USAGE\<close>: after
  every other error no entry for the alias remains. On a re-open of a hashed entry whose
  table is closed the entry stays in the hash, its table closed, and the aliases of the
  hash are unchanged. New \<^verbatim>\<open>TABLE\<close> objects are assumed to get addresses not in
  \<^verbatim>\<open>thd->handler_tables\<close>.
\<close>

theorem C7_failed_open:
  assumes "mysql_ha_open X tables reopen thd = (Some err, thd')" and "err \<noteq> EX_ASSERT"
    and "\<forall>t \<in> set (handler_tables thd). t < next_table thd"
  shows "handler_tables thd' = handler_tables thd \<and>
         handler_mdl_context thd' = handler_mdl_context thd \<and>
         open_tables thd' = open_tables thd \<and> mdl_context thd' = mdl_context thd \<and>
         (\<forall>t < next_table thd. heap thd' t = heap thd t) \<and>
         ((next_table thd' = next_table thd \<and> heap thd' = heap thd \<and>
           (trace thd' = trace thd \<or>
            trace thd' = trace thd @ [Ev_open_tables (tl_alias tables) [] []])) \<or>
          (next_table thd' = Suc (next_table thd) \<and> \<not> in_use (heap thd' (next_table thd)) \<and>
           trace thd' = trace thd @ [Ev_open_tables (tl_alias tables) [] [],
                                      Ev_close_thread_table (next_table thd)]) \<or>
          (next_table thd' = Suc (next_table thd) \<and>
           \<not> open_by_handler (heap thd' (next_table thd)) \<and>
           query_id (heap thd' (next_table thd)) = thd_query_id thd \<and>
           trace thd' = trace thd @ [Ev_open_tables (tl_alias tables) [] []]) \<or>
          (Suc (next_table thd) < next_table thd' \<and>
           (\<forall>t. next_table thd \<le> t \<and> t < next_table thd' \<longrightarrow> \<not> in_use (heap thd' t)) \<and>
           trace thd' = trace thd @ [Ev_open_tables (tl_alias tables) [] [],
                                      Ev_close_thread_tables])) \<and>
         (\<not> reopen \<longrightarrow> hash_records thd' = hash_records thd \<and>
            (my_hash_search thd (tl_alias tables) = None \<longrightarrow>
               my_hash_search thd' (tl_alias tables) = None) \<and>
            (my_hash_search thd' (tl_alias tables) = None \<or> thd' = thd) \<and>
            (err \<noteq> ER_NONUNIQ_TABLE \<and> err \<noteq> ER_LOCK_OR_ACTIVE_TRANSACTION \<and>
             err \<noteq> ER_WRONG_USAGE \<longrightarrow> my_hash_search thd' (tl_alias tables) = None)) \<and>
         (reopen \<and> my_hash_search thd (tl_alias tables) = Some tables \<and> tl_table tables = None \<longrightarrow>
            (\<exists>e'. my_hash_search thd' (tl_alias tables) = Some e' \<and> tl_table e' = None) \<and>
            map tl_alias (hash_records thd') = map tl_alias (hash_records thd))"
proof -
  let ?a = "tl_alias tables"
  let ?n = "next_table thd"
  let ?closed = "\<lambda>thd0. (next_table thd' = ?n \<and> heap thd' = heap thd0 \<and>
           (trace thd' = trace thd0 \<or>
            trace thd' = trace thd0 @ [Ev_open_tables ?a [] []])) \<or>
          (next_table thd' = Suc ?n \<and> \<not> in_use (heap thd' ?n) \<and>
           trace thd' = trace thd0 @ [Ev_open_tables ?a [] [], Ev_close_thread_table ?n]) \<or>
          (next_table thd' = Suc ?n \<and> \<not> open_by_handler (heap thd' ?n) \<and>
           query_id (heap thd' ?n) = thd_query_id thd0 \<and>
           trace thd' = trace thd0 @ [Ev_open_tables ?a [] []]) \<or>
          (Suc ?n < next_table thd' \<and>
           (\<forall>t. ?n \<le> t \<and> t < next_table thd' \<longrightarrow> \<not> in_use (heap thd' t)) \<and>
           trace thd' = trace thd0 @ [Ev_open_tables ?a [] [], Ev_close_thread_tables])"
  have ne: "Some err \<noteq> Some EX_ASSERT" using assms(2) by simp
  from assms(3) have fresh: "?n \<notin> set (handler_tables thd)" by auto
  have E: "\<not> reopen \<and> err \<noteq> ER_NONUNIQ_TABLE \<and> err \<noteq> ER_LOCK_OR_ACTIVE_TRANSACTION \<and>
      err \<noteq> ER_WRONG_USAGE \<longrightarrow> my_hash_search thd ?a = None"
    using first_open_refused [of X tables thd err thd'] assms(1) by auto
  from mysql_ha_open_cases [OF assms(1) ne] show ?thesis
  proof (rule disjE)
    assume "Some err \<noteq> None \<and> hash_records thd' = hash_records thd \<and>
          thd' = thd\<lparr>world := world thd', handler_tables_hash := handler_tables_hash thd'\<rparr> \<and>
          (thd' = thd \<or> my_hash_search thd ?a = None)"
    note e = this
    note early = e [THEN conjunct2, THEN conjunct1]
      e [THEN conjunct2, THEN conjunct2, THEN conjunct1]
      e [THEN conjunct2, THEN conjunct2, THEN conjunct2]
    note f = thd_frame_fields [OF early(2)]
    note s = my_hash_search_records [OF early(1), of ?a]
    have A: "handler_tables thd' = handler_tables thd \<and>
         handler_mdl_context thd' = handler_mdl_context thd \<and>
         open_tables thd' = open_tables thd \<and> mdl_context thd' = mdl_context thd \<and>
         (\<forall>t < ?n. heap thd' t = heap thd t)" using f by simp
    have B: "?closed thd" using f by simp
    have C: "\<not> reopen \<longrightarrow> hash_records thd' = hash_records thd \<and>
            (my_hash_search thd ?a = None \<longrightarrow> my_hash_search thd' ?a = None) \<and>
            (my_hash_search thd' ?a = None \<or> thd' = thd)"
      using early(1,3) s by auto
    have D: "reopen \<and> my_hash_search thd ?a = Some tables \<and> tl_table tables = None \<longrightarrow>
            (\<exists>e'. my_hash_search thd' ?a = Some e' \<and> tl_table e' = None) \<and>
            map tl_alias (hash_records thd') = map tl_alias (hash_records thd)"
      using early(1) s by simp
    have C': "\<not> reopen \<longrightarrow> hash_records thd' = hash_records thd \<and>
            (my_hash_search thd ?a = None \<longrightarrow> my_hash_search thd' ?a = None) \<and>
            (my_hash_search thd' ?a = None \<or> thd' = thd) \<and>
            (err \<noteq> ER_NONUNIQ_TABLE \<and> err \<noteq> ER_LOCK_OR_ACTIVE_TRANSACTION \<and>
             err \<noteq> ER_WRONG_USAGE \<longrightarrow> my_hash_search thd' ?a = None)"
    proof
      assume nr: "\<not> reopen"
      note c0 = C [rule_format, OF nr]
      note c = c0 [THEN conjunct1] c0 [THEN conjunct2, THEN conjunct1]
        c0 [THEN conjunct2, THEN conjunct2]
      from E nr c(2) have "err \<noteq> ER_NONUNIQ_TABLE \<and> err \<noteq> ER_LOCK_OR_ACTIVE_TRANSACTION \<and>
             err \<noteq> ER_WRONG_USAGE \<longrightarrow> my_hash_search thd' ?a = None" by simp
      with c show "hash_records thd' = hash_records thd \<and>
            (my_hash_search thd ?a = None \<longrightarrow> my_hash_search thd' ?a = None) \<and>
            (my_hash_search thd' ?a = None \<or> thd' = thd) \<and>
            (err \<noteq> ER_NONUNIQ_TABLE \<and> err \<noteq> ER_LOCK_OR_ACTIVE_TRANSACTION \<and>
             err \<noteq> ER_WRONG_USAGE \<longrightarrow> my_hash_search thd' ?a = None)"
        by (intro conjI)
    qed
    from A B C' D show ?thesis by (elim conjE, intro conjI) assumption+
  next
    assume "\<exists>thd2 ht. ha_open_body X reopen ht thd2 = (Some err, thd') \<and> tl_table ht = None \<and>
            tl_alias ht = ?a \<and>
            thd2 = thd\<lparr>world := world thd2, handler_tables_hash := handler_tables_hash thd2\<rparr> \<and>
            (reopen \<longrightarrow> ht = tables \<and> hash_records thd2 = hash_records thd) \<and>
            (\<not> reopen \<longrightarrow> my_hash_search thd ?a = None \<and>
               handler_tables_hash thd2 = Some (hash_records thd @ [ht]))"
    then obtain thd2 ht where body0:
        "ha_open_body X reopen ht thd2 = (Some err, thd') \<and> tl_table ht = None \<and>
            tl_alias ht = ?a \<and>
            thd2 = thd\<lparr>world := world thd2, handler_tables_hash := handler_tables_hash thd2\<rparr> \<and>
            (reopen \<longrightarrow> ht = tables \<and> hash_records thd2 = hash_records thd) \<and>
            (\<not> reopen \<longrightarrow> my_hash_search thd ?a = None \<and>
               handler_tables_hash thd2 = Some (hash_records thd @ [ht]))"
      by (elim exE)
    note body = body0 [THEN conjunct1] body0 [THEN conjunct2, THEN conjunct1]
      body0 [THEN conjunct2, THEN conjunct2, THEN conjunct1]
      body0 [THEN conjunct2, THEN conjunct2, THEN conjunct2, THEN conjunct1]
      body0 [THEN conjunct2, THEN conjunct2, THEN conjunct2, THEN conjunct2, THEN conjunct1]
      body0 [THEN conjunct2, THEN conjunct2, THEN conjunct2, THEN conjunct2, THEN conjunct2]
    note f = thd_frame_fields [OF body(4)]
    from fresh f have fr2: "next_table thd2 \<notin> set (handler_tables thd2)" by simp
    note bf = ha_open_body_fail [OF body(1,2) fr2]
    note cx = ha_open_body_ctx [OF body(1,2)]
    from bf obtain e' where e': "tl_alias e' = ?a" "tl_table e' = None"
      and hs: "handler_tables_hash thd' =
             map_option (\<lambda>es. if reopen then hash_store e' es
                               else hash_remove (tl_alias ht) (hash_store e' es))
               (handler_tables_hash thd2)"
      using body(3) by (elim conjE exE) simp
    have A: "handler_tables thd' = handler_tables thd \<and>
         handler_mdl_context thd' = handler_mdl_context thd \<and>
         open_tables thd' = open_tables thd \<and> mdl_context thd' = mdl_context thd \<and>
         (\<forall>t < ?n. heap thd' t = heap thd t)" using bf cx f by simp
    from bf have "(next_table thd' = next_table thd2 \<and> heap thd' = heap thd2 \<and>
          trace thd' = trace thd2 @ [Ev_open_tables (tl_alias ht) [] []]) \<or>
         (next_table thd' = Suc (next_table thd2) \<and> \<not> in_use (heap thd' (next_table thd2)) \<and>
          trace thd' = trace thd2 @ [Ev_open_tables (tl_alias ht) [] [],
                                     Ev_close_thread_table (next_table thd2)]) \<or>
         (next_table thd' = Suc (next_table thd2) \<and>
          \<not> open_by_handler (heap thd' (next_table thd2)) \<and>
          query_id (heap thd' (next_table thd2)) = thd_query_id thd2 \<and>
          trace thd' = trace thd2 @ [Ev_open_tables (tl_alias ht) [] []]) \<or>
         (Suc (next_table thd2) < next_table thd' \<and>
          (\<forall>t. next_table thd2 \<le> t \<and> t < next_table thd' \<longrightarrow> \<not> in_use (heap thd' t)) \<and>
          trace thd' = trace thd2 @ [Ev_open_tables (tl_alias ht) [] [], Ev_close_thread_tables])"
      by (elim conjE)
    with f body(3) have "(next_table thd' = ?n \<and> heap thd' = heap thd \<and>
          trace thd' = trace thd @ [Ev_open_tables ?a [] []]) \<or>
         (next_table thd' = Suc ?n \<and> \<not> in_use (heap thd' ?n) \<and>
          trace thd' = trace thd @ [Ev_open_tables ?a [] [], Ev_close_thread_table ?n]) \<or>
         (next_table thd' = Suc ?n \<and> \<not> open_by_handler (heap thd' ?n) \<and>
          query_id (heap thd' ?n) = thd_query_id thd \<and>
          trace thd' = trace thd @ [Ev_open_tables ?a [] []]) \<or>
         (Suc ?n < next_table thd' \<and>
          (\<forall>t. ?n \<le> t \<and> t < next_table thd' \<longrightarrow> \<not> in_use (heap thd' t)) \<and>
          trace thd' = trace thd @ [Ev_open_tables ?a [] [], Ev_close_thread_tables])"
      by simp
    then have B: "?closed thd" by (elim disjE) simp_all
    have C: "\<not> reopen \<longrightarrow> hash_records thd' = hash_records thd \<and>
            (my_hash_search thd ?a = None \<longrightarrow> my_hash_search thd' ?a = None) \<and>
            (my_hash_search thd' ?a = None \<or> thd' = thd)"
    proof
      assume nr: "\<not> reopen"
      with body(6) have ab: "my_hash_search thd ?a = None"
        and h2: "handler_tables_hash thd2 = Some (hash_records thd @ [ht])" by simp_all
      from ab have al: "\<forall>e \<in> set (hash_records thd). tl_alias e \<noteq> tl_alias e'"
        using e'(1) by (simp add: my_hash_search_None)
      from hs nr h2 body(3) have "handler_tables_hash thd' =
          Some (hash_remove ?a (hash_store e' (hash_records thd @ [ht])))" by simp
      also have "hash_store e' (hash_records thd @ [ht]) = hash_records thd @ [e']"
        using al e'(1) body(3) by (simp add: hash_store_fresh)
      also have "hash_remove ?a (hash_records thd @ [e']) = hash_records thd"
        using al e'(1) by (simp add: hash_remove_fresh)
      finally have hr: "hash_records thd' = hash_records thd" by (simp add: hash_records_def)
      from my_hash_search_records [OF hr, of ?a] ab hr
      show "hash_records thd' = hash_records thd \<and>
            (my_hash_search thd ?a = None \<longrightarrow> my_hash_search thd' ?a = None) \<and>
            (my_hash_search thd' ?a = None \<or> thd' = thd)" by simp
    qed
    have D: "reopen \<and> my_hash_search thd ?a = Some tables \<and> tl_table tables = None \<longrightarrow>
            (\<exists>e'. my_hash_search thd' ?a = Some e' \<and> tl_table e' = None) \<and>
            map tl_alias (hash_records thd') = map tl_alias (hash_records thd)"
    proof
      assume h: "reopen \<and> my_hash_search thd ?a = Some tables \<and> tl_table tables = None"
      then have ro: reopen and ent: "my_hash_search thd ?a = Some tables" by simp_all
      from ro body(5) have r2: "hash_records thd2 = hash_records thd" by simp
      from ent obtain es where hs0: "handler_tables_hash thd2 = Some es"
        and es: "es = hash_records thd"
        using r2 by (cases "handler_tables_hash thd2") (auto simp: my_hash_search_def hash_records_def)
      from hs ro hs0 have h': "hash_records thd' = hash_store e' es"
        by (simp add: hash_records_def)
      from ent es have "find (\<lambda>e. tl_alias e = ?a) es = Some tables"
        by (simp add: my_hash_search_def)
      from find_hash_store [OF this e'(1)] h'
      have "my_hash_search thd' ?a = Some e'" by (simp add: my_hash_search_def)
      with e'(2) h' es
      show "(\<exists>e'. my_hash_search thd' ?a = Some e' \<and> tl_table e' = None) \<and>
            map tl_alias (hash_records thd') = map tl_alias (hash_records thd)"
        by (simp add: hash_store_aliases)
    qed
    have C': "\<not> reopen \<longrightarrow> hash_records thd' = hash_records thd \<and>
            (my_hash_search thd ?a = None \<longrightarrow> my_hash_search thd' ?a = None) \<and>
            (my_hash_search thd' ?a = None \<or> thd' = thd) \<and>
            (err \<noteq> ER_NONUNIQ_TABLE \<and> err \<noteq> ER_LOCK_OR_ACTIVE_TRANSACTION \<and>
             err \<noteq> ER_WRONG_USAGE \<longrightarrow> my_hash_search thd' ?a = None)"
    proof
      assume nr: "\<not> reopen"
      note c0 = C [rule_format, OF nr]
      note c = c0 [THEN conjunct1] c0 [THEN conjunct2, THEN conjunct1]
        c0 [THEN conjunct2, THEN conjunct2]
      from E nr c(2) have "err \<noteq> ER_NONUNIQ_TABLE \<and> err \<noteq> ER_LOCK_OR_ACTIVE_TRANSACTION \<and>
             err \<noteq> ER_WRONG_USAGE \<longrightarrow> my_hash_search thd' ?a = None" by simp
      with c show "hash_records thd' = hash_records thd \<and>
            (my_hash_search thd ?a = None \<longrightarrow> my_hash_search thd' ?a = None) \<and>
            (my_hash_search thd' ?a = None \<or> thd' = thd) \<and>
            (err \<noteq> ER_NONUNIQ_TABLE \<and> err \<noteq> ER_LOCK_OR_ACTIVE_TRANSACTION \<and>
             err \<noteq> ER_WRONG_USAGE \<longrightarrow> my_hash_search thd' ?a = None)"
        by (intro conjI)
    qed
    from A B C' D show ?thesis by (elim conjE, intro conjI) assumption+
  qed
qed


lemma demo_thd_h1_fields:
  "handler_tables_hash (demo_thd_h1 w) = Some [demo_entry_h1 (Some 0)]"
  "handler_tables (demo_thd_h1 w) = [0]"
  "handler_mdl_context (demo_thd_h1 w) = [5]"
  "next_table (demo_thd_h1 w) = 1"
  "locked_tables_mode (demo_thd_h1 w) = False"
  "open_tables (demo_thd_h1 w) = []"
  "mdl_context (demo_thd_h1 w) = []"
  "world (demo_thd_h1 w) = w"
  "heap (demo_thd_h1 w) 0 = demo_TABLE\<lparr>in_use := True, open_by_handler := True\<rparr>"
  "trace (demo_thd_h1 w) = [Ev_open_tables ''h1'' [] []]"
  "thd_query_id (demo_thd_h1 w) = 0"
  by (simp_all add: demo_thd_h1_def demo_entry_h1_def demo_session_defs Let_def)

lemma demo_names:
  "tl_alias (demo_tables a) = a" "tl_table (demo_tables a) = None"
  "schema_table (demo_tables a) = False" "rd_tables demo_read = demo_tables ''h1''"
  "tl_alias (demo_entry_h1 t) = ''h1''" "tl_table (demo_entry_h1 t) = t"
  "schema_table (demo_entry_h1 t) = False"
  by (simp_all add: demo_tables_def demo_read_def demo_entry_h1_def)

text \<open>
  The theorem at a MERGE open: \<^verbatim>\<open>HANDLER t OPEN AS h2\<close> finds two tables for the name,
  while \<open>h1\<close> is open.
\<close>

theorem C7_failed_open_witness:
  "fst (mysql_ha_open demo_X_multi (demo_tables ''h2'') False (demo_thd_h1 0)) = Some ER_ILLEGAL_HA \<and>
   handler_tables (snd (mysql_ha_open demo_X_multi (demo_tables ''h2'') False (demo_thd_h1 0))) = [0] \<and>
   handler_mdl_context (snd (mysql_ha_open demo_X_multi (demo_tables ''h2'') False (demo_thd_h1 0))) = [5] \<and>
   hash_records (snd (mysql_ha_open demo_X_multi (demo_tables ''h2'') False (demo_thd_h1 0))) =
     [demo_entry_h1 (Some 0)] \<and>
   my_hash_search (snd (mysql_ha_open demo_X_multi (demo_tables ''h2'') False (demo_thd_h1 0))) ''h2'' = None \<and>
   next_table (snd (mysql_ha_open demo_X_multi (demo_tables ''h2'') False (demo_thd_h1 0))) = 3 \<and>
   \<not> in_use (heap (snd (mysql_ha_open demo_X_multi (demo_tables ''h2'') False (demo_thd_h1 0))) 1) \<and>
   \<not> in_use (heap (snd (mysql_ha_open demo_X_multi (demo_tables ''h2'') False (demo_thd_h1 0))) 2) \<and>
   trace (snd (mysql_ha_open demo_X_multi (demo_tables ''h2'') False (demo_thd_h1 0))) =
     [Ev_open_tables ''h1'' [] [], Ev_open_tables ''h2'' [] [], Ev_close_thread_tables]"
proof -
  let ?res = "mysql_ha_open demo_X_multi (demo_tables ''h2'') False (demo_thd_h1 0)"
  have f: "fst ?res = Some ER_ILLEGAL_HA"
    by (simp add: demo_X_multi_def demo_session_defs demo_thd_h1_fields demo_entry_h1_def Let_def)
  have nt: "next_table (snd ?res) = 3"
    by (simp add: demo_X_multi_def demo_session_defs demo_thd_h1_fields demo_entry_h1_def Let_def)
  from f have h1: "?res = (Some ER_ILLEGAL_HA, snd ?res)" by (metis prod.collapse)
  have h2: "ER_ILLEGAL_HA \<noteq> EX_ASSERT" by simp
  have h3: "\<forall>t \<in> set (handler_tables (demo_thd_h1 0)). t < next_table (demo_thd_h1 0)"
    by (simp add: demo_thd_h1_fields)
  have h4: "my_hash_search (demo_thd_h1 0) (tl_alias (demo_tables ''h2'')) = None"
    by (simp add: my_hash_search_def hash_records_def demo_thd_h1_fields demo_tables_def
          demo_entry_h1_def)
  note inst = C7_failed_open [OF h1 h2 h3]
  note lists = inst [THEN conjunct1] inst [THEN conjunct2, THEN conjunct1]
  note closed = inst [THEN conjunct2, THEN conjunct2, THEN conjunct2, THEN conjunct2,
      THEN conjunct2, THEN conjunct1]
  note hash = inst [THEN conjunct2, THEN conjunct2, THEN conjunct2, THEN conjunct2,
      THEN conjunct2, THEN conjunct2, THEN conjunct1]
  from closed nt have m: "(\<forall>t. 1 \<le> t \<and> t < 3 \<longrightarrow> \<not> in_use (heap (snd ?res) t)) \<and>
      trace (snd ?res) = [Ev_open_tables ''h1'' [] [], Ev_open_tables ''h2'' [] [],
                          Ev_close_thread_tables]"
    by (simp add: demo_thd_h1_fields demo_names)
  then have u: "\<not> in_use (heap (snd ?res) 1)" "\<not> in_use (heap (snd ?res) 2)"
    and tr: "trace (snd ?res) = [Ev_open_tables ''h1'' [] [], Ev_open_tables ''h2'' [] [],
                          Ev_close_thread_tables]" by simp_all
  from hash h4 have hr: "hash_records (snd ?res) = [demo_entry_h1 (Some 0)]"
    and hs: "my_hash_search (snd ?res) ''h2'' = None"
    by (simp_all add: demo_thd_h1_fields hash_records_def demo_names)
  from lists have l: "handler_tables (snd ?res) = [0]" "handler_mdl_context (snd ?res) = [5]"
    by (simp_all add: demo_thd_h1_fields)
  from f l hr hs nt u tr show ?thesis by (intro conjI)
qed

subsection \<open>Close, and the read after it\<close>

lemma hash_remove_distinct:
  "distinct (map tl_alias es) \<Longrightarrow> a \<notin> tl_alias ` set (hash_remove a es)"
  by (induction es) auto

lemma hash_remove_store_distinct:
  assumes "distinct (map tl_alias es)"
  shows "find (\<lambda>e. tl_alias e = a) (hash_remove a (hash_store e' es)) = None"
proof -
  from assms have "distinct (map tl_alias (hash_store e' es))"
    by (simp add: hash_store_aliases)
  from hash_remove_distinct [OF this, of a] show ?thesis
    by (auto simp: find_None_iff)
qed



















end
